theory Spec2Isabelle
  imports Main "HOL-Library.Log_Nat" "HOL-Library.Product_Lexorder"
begin

section \<open>Numbers of the program\<close>

text \<open>
  Python integers are unbounded: type \<open>int\<close>. A finite float64 is the rational number it
  denotes; the three other float values are constructors of their own, because
  \<^verbatim>\<open>int(x)\<close> raises on them.
\<close>

datatype error = ValueError | OverflowError | KeyError

datatype float64 = Fin rat | PInf | NInf | NaN

text \<open>
  Every float64 operation returns the exact result rounded to the nearest value with 53
  significant bits, ties to the even significand (the exponent does not go below -1022,
  where the subnormal numbers begin). \<open>ilog2 x\<close> is the exponent of \<open>x\<close>:
  \<open>2 powi ilog2 x \<le> \<bar>x\<bar> < 2 powi (ilog2 x + 1)\<close>. Overflow to infinity is left
  out: the operands of this program are order counts and sums of them.
\<close>

definition ilog2 :: "rat \<Rightarrow> int" where
  "ilog2 x = (case quotient_of \<bar>x\<bar> of (p, q) \<Rightarrow>
     (let d = bitlen p - bitlen q in if 2 powi d \<le> \<bar>x\<bar> then d else d - 1))"

definition round_half_even :: "rat \<Rightarrow> int" where
  "round_half_even y = (let f = \<lfloor>y\<rfloor>; d = y - of_int f in
     if d < 1 / 2 then f else if 1 / 2 < d then f + 1 else if even f then f else f + 1)"

definition round_double :: "rat \<Rightarrow> rat" where
  "round_double x = (if x = 0 then 0 else
     (let g = 2 powi (max (ilog2 x) (- 1022) - 52)
      in of_int (round_half_even (x / g)) * g))"

definition int_to_float :: "int \<Rightarrow> rat" where
  "int_to_float n = round_double (of_int n)"

definition fmul :: "rat \<Rightarrow> rat \<Rightarrow> rat" where
  "fmul x y = round_double (x * y)"

definition fadd :: "rat \<Rightarrow> rat \<Rightarrow> rat" where
  "fadd x y = round_double (x + y)"

definition fsub :: "rat \<Rightarrow> rat \<Rightarrow> rat" where
  "fsub x y = round_double (x - y)"

definition fdiv :: "rat \<Rightarrow> rat \<Rightarrow> rat" where
  "fdiv x y = round_double (x / y)"

text \<open>The literal \<^verbatim>\<open>0.6\<close> is the float64 nearest to 3/5; \<^verbatim>\<open>0.75\<close> is exactly 3/4.\<close>

definition c06 :: rat where
  "c06 = 5404319552844595 / 2 ^ 53"

definition c075 :: rat where
  "c075 = 3 / 4"

text \<open>
  A column of integers that all fit in 64 bits is a column of 64-bit integers, and its sum
  is taken in 64 bits: it wraps around.
\<close>

definition int64_range :: "int \<Rightarrow> bool" where
  "int64_range x = (- (2 ^ 63) \<le> x \<and> x < 2 ^ 63)"

definition int64_wrap :: "int \<Rightarrow> int" where
  "int64_wrap x = (x + 2 ^ 63) mod 2 ^ 64 - 2 ^ 63"

definition int64_sum :: "int list \<Rightarrow> int" where
  "int64_sum xs = int64_wrap (sum_list xs)"

text \<open>\<^verbatim>\<open>int(x)\<close> on a float truncates towards zero, and raises on NaN and on an infinity.\<close>

definition py_trunc :: "rat \<Rightarrow> int" where
  "py_trunc r = (if 0 \<le> r then \<lfloor>r\<rfloor> else \<lceil>r\<rceil>)"

fun py_int :: "float64 \<Rightarrow> error + int" where
  "py_int (Fin r) = Inr (py_trunc r)"
| "py_int NaN = Inl ValueError"
| "py_int PInf = Inl OverflowError"
| "py_int NInf = Inl OverflowError"


text \<open>The truth value of a float in a condition: everything but zero, NaN included.\<close>

definition truthy :: "float64 \<Rightarrow> bool" where
  "truthy x = (x \<noteq> Fin 0)"

subsection \<open>Rendering integers\<close>

definition digit_char :: "nat \<Rightarrow> char" where
  "digit_char d = char_of (48 + d)"

function str_nat :: "nat \<Rightarrow> string" where
  "str_nat n = (if n < 10 then [digit_char n] else str_nat (n div 10) @ [digit_char (n mod 10)])"
  by pat_completeness auto
termination
  by (relation "measure id") auto

definition str_int :: "int \<Rightarrow> string" where
  "str_int i = (if i < 0 then CHR ''-'' # str_nat (nat (- i)) else str_nat (nat i))"

text \<open>The format \<^verbatim>\<open>{:,}\<close>: a comma before every group of three digits, counted from the right.\<close>

fun group3 :: "string \<Rightarrow> string" where
  "group3 (a # b # c # d # ds) = a # b # c # CHR '','' # group3 (d # ds)"
| "group3 ds = ds"

definition format_thousands :: "int \<Rightarrow> string" where
  "format_thousands i =
     (if i < 0 then CHR ''-'' # rev (group3 (rev (str_nat (nat (- i)))))
      else rev (group3 (rev (str_nat (nat i)))))"

text \<open>The rupee sign U+20B9, as its three bytes in UTF-8.\<close>

definition rupee :: string where
  "rupee = [char_of (226::nat), char_of (130::nat), char_of (185::nat)]"

section \<open>Time stamps\<close>

text \<open>
  A pandas time stamp is a count of nanoseconds since 1970-01-01 00:00, a Thursday
  (day of week 3, Monday being 0).
\<close>

type_synonym timestamp = int

definition ns_per_hour :: int where
  "ns_per_hour = 3600 * 10 ^ 9"

definition floor_hour :: "timestamp \<Rightarrow> timestamp" where
  "floor_hour t = t - t mod ns_per_hour"

definition hour_of :: "timestamp \<Rightarrow> int" where
  "hour_of t = (t div ns_per_hour) mod 24"

definition dayofweek :: "timestamp \<Rightarrow> int" where
  "dayofweek t = (t div (24 * ns_per_hour) + 3) mod 7"

section \<open>forecasting_engine.py\<close>

subsection \<open>get_demand_forecast\<close>

text \<open>The rows of the frame \<^verbatim>\<open>future\<close> handed to the model.\<close>

record future_row =
  ds :: timestamp
  is_weekend :: bool
  is_lunch_rush :: int
  is_dinner_rush :: int
  weather_impact :: int
  is_festival :: int

definition future_features :: "timestamp \<Rightarrow> future_row" where
  "future_features t =
     \<lparr>ds = t,
      is_weekend = (5 \<le> dayofweek t),
      is_lunch_rush = (if 12 \<le> hour_of t \<and> hour_of t \<le> 14 then 1 else 0),
      is_dinner_rush = (if 19 \<le> hour_of t \<and> hour_of t \<le> 22 then 1 else 0),
      weather_impact = 0,
      is_festival = 0\<rparr>"

text \<open>
  The rows of the frame \<^verbatim>\<open>forecast\<close> that \<^verbatim>\<open>model.predict\<close> returns, with the
  columns the loop reads: \<open>f_ds\<close>, \<open>f_is_lunch_rush\<close> and \<open>f_is_dinner_rush\<close> are its columns
  \<^verbatim>\<open>ds\<close>, \<^verbatim>\<open>is_lunch_rush\<close> and \<^verbatim>\<open>is_dinner_rush\<close>. The fitted model is a library
  object: its \<^verbatim>\<open>predict\<close> is a parameter of the embedding, a function from the future
  frame to the forecast frame.
\<close>

record forecast_row =
  f_ds :: timestamp
  yhat :: float64
  yhat_lower :: float64
  yhat_upper :: float64
  f_is_lunch_rush :: float64
  f_is_dinner_rush :: float64

text \<open>
  One entry of \<^verbatim>\<open>results\<close>. The field \<open>hour\<close> holds the time stamp whose rendering
  \<^verbatim>\<open>%Y-%m-%d %H:00\<close> the source stores.
\<close>

record forecast_result =
  hour :: timestamp
  predicted_orders :: int
  delivery_partners_needed :: int
  confidence_interval :: string
  rush_period :: string

text \<open>Line 106: \<^verbatim>\<open>max(1, int(predicted_orders * 0.6))\<close>.\<close>

definition delivery_partners :: "int \<Rightarrow> int" where
  "delivery_partners predicted = max 1 (py_trunc (fmul (int_to_float predicted) c06))"

text \<open>The body of the loop, for one row; the conversions raise in the order of the source.\<close>

definition forecast_entry :: "forecast_row \<Rightarrow> error + forecast_result" where
  "forecast_entry row =
     (case py_int (yhat row) of
        Inl e \<Rightarrow> Inl e
      | Inr y \<Rightarrow>
          (let predicted = max 0 y in
           case py_int (yhat_lower row) of
             Inl e \<Rightarrow> Inl e
           | Inr lo \<Rightarrow>
               (case py_int (yhat_upper row) of
                  Inl e \<Rightarrow> Inl e
                | Inr hi \<Rightarrow>
                    Inr \<lparr>hour = f_ds row,
                         predicted_orders = predicted,
                         delivery_partners_needed = delivery_partners predicted,
                         confidence_interval = str_int lo @ ''-'' @ str_int hi,
                         rush_period =
                           (if truthy (f_is_lunch_rush row) then ''Lunch Rush''
                            else if truthy (f_is_dinner_rush row) then ''Dinner Rush''
                            else ''Regular'')\<rparr>)))"

fun forecast_loop :: "forecast_row list \<Rightarrow> forecast_result list \<Rightarrow> error + forecast_result list" where
  "forecast_loop [] results = Inr results"
| "forecast_loop (row # rows) results =
     (case forecast_entry row of
        Inl e \<Rightarrow> Inl e
      | Inr r \<Rightarrow> forecast_loop rows (results @ [r]))"

text \<open>
  \<^verbatim>\<open>date_range(start, periods=hours+1, freq='H')[1:]\<close>: the \<open>hours\<close> hours after
  \<open>start\<close>; a negative number of periods raises.
\<close>

definition future_dates :: "timestamp \<Rightarrow> int \<Rightarrow> error + timestamp list" where
  "future_dates start hours =
     (if hours + 1 < 0 then Inl ValueError
      else Inr (map (\<lambda>i. start + i * ns_per_hour) [1..hours]))"

text \<open>The frame \<^verbatim>\<open>future\<close> of a call with a number of hours that is not negative.\<close>

definition future_frame :: "timestamp \<Rightarrow> int \<Rightarrow> future_row list" where
  "future_frame now hours =
     map future_features (map (\<lambda>i. floor_hour now + i * ns_per_hour) [1..hours])"

definition get_demand_forecast ::
  "(future_row list \<Rightarrow> forecast_row list) \<Rightarrow> timestamp \<Rightarrow> int \<Rightarrow> error + forecast_result list" where
  "get_demand_forecast predict now hours =
     (case future_dates (floor_hour now) hours of
        Inl e \<Rightarrow> Inl e
      | Inr dates \<Rightarrow> forecast_loop (predict (map future_features dates)) [])"

subsection \<open>calculate_logistics_impact\<close>

text \<open>
  The local variables of the function, and the dictionary it returns. The two sums run
  over columns of 64-bit integers, the counts of a forecast fitting in 64 bits; every
  other step is a float64 operation, on the sums converted to floats.
\<close>

record impact_locals =
  total_orders :: int
  total_partners :: int
  avg_partners_per_hour :: rat
  baseline_partners :: rat
  partners_saved :: rat
  cost_savings :: rat

record logistics_impact =
  total_predicted_orders :: int
  delivery_partners_saved :: int
  estimated_cost_savings :: string
  avg_delivery_partners :: rat

definition impact_metrics :: "forecast_result list \<Rightarrow> impact_locals" where
  "impact_metrics rs =
     (let orders = int64_sum (map predicted_orders rs);
          partners = int64_sum (map delivery_partners_needed rs);
          avg = fdiv (int_to_float partners) (int_to_float (int (length rs)));
          baseline = fmul (int_to_float orders) c075;
          saved = fsub baseline (int_to_float partners);
          savings = fmul saved 150
      in \<lparr>total_orders = orders, total_partners = partners, avg_partners_per_hour = avg,
          baseline_partners = baseline, partners_saved = saved, cost_savings = savings\<rparr>)"

text \<open>\<^verbatim>\<open>round(x, 1)\<close> on a numpy float: scale by ten, round to the nearest integer, divide.\<close>

definition np_round1 :: "rat \<Rightarrow> rat" where
  "np_round1 x = fdiv (of_int (round_half_even (fmul x 10))) 10"

text \<open>A frame built from an empty list has no columns: the first column access raises.\<close>

definition calculate_logistics_impact :: "forecast_result list \<Rightarrow> error + logistics_impact" where
  "calculate_logistics_impact rs =
     (if rs = [] then Inl KeyError
      else (let m = impact_metrics rs in
        Inr \<lparr>total_predicted_orders = total_orders m,
             delivery_partners_saved = py_trunc (partners_saved m),
             estimated_cost_savings = rupee @ format_thousands (py_trunc (cost_savings m)),
             avg_delivery_partners = np_round1 (avg_partners_per_hour m)\<rparr>))"

section \<open>data_preparation.py\<close>

subsection \<open>prepare_swiggy_demand_data\<close>

text \<open>
  The rows of the sales table as loaded, and the rows of \<^verbatim>\<open>df\<close> after the renaming and the
  added columns. Loading the table, with its fallback, happens before the code modelled
  here. The two rush columns are created by an assignment under a mask and completed by
  \<^verbatim>\<open>fillna(0)\<close>, which makes them columns of floats.
\<close>

record raw_row =
  date :: timestamp
  store :: int
  item :: int
  sales :: int

record event_row =
  ev_order_date :: timestamp
  ev_restaurant_id :: int
  ev_menu_item_id :: int
  ev_order_count :: int
  ev_hour :: int
  ev_day_of_week :: int
  ev_is_weekend :: int
  ev_is_festival :: int
  ev_is_lunch_rush :: rat
  ev_is_dinner_rush :: rat

definition add_event_columns :: "raw_row \<Rightarrow> event_row" where
  "add_event_columns r =
     \<lparr>ev_order_date = date r,
      ev_restaurant_id = store r,
      ev_menu_item_id = item r,
      ev_order_count = sales r,
      ev_hour = hour_of (date r),
      ev_day_of_week = dayofweek (date r),
      ev_is_weekend = (if 5 \<le> dayofweek (date r) then 1 else 0),
      ev_is_festival = 0,
      ev_is_lunch_rush = (if 12 \<le> hour_of (date r) \<and> hour_of (date r) \<le> 14 then 1 else 0),
      ev_is_dinner_rush = (if 19 \<le> hour_of (date r) \<and> hour_of (date r) \<le> 22 then 1 else 0)\<rparr>"

text \<open>The hourly table \<^verbatim>\<open>demand_data\<close>: one row for each hour and restaurant with an event.\<close>

record demand_row =
  order_date :: timestamp
  restaurant_id :: int
  order_count :: int
  h_is_weekend :: int
  h_is_lunch_rush :: rat
  h_is_dinner_rush :: rat
  h_weather_impact :: rat

definition group_key :: "event_row \<Rightarrow> timestamp \<times> int" where
  "group_key r = (floor_hour (ev_order_date r), ev_restaurant_id r)"

text \<open>
  The aggregation of one group: the sum of the order counts, a column of 64-bit integers,
  and the first value of each flag. A group is never empty, its key being the key of one
  of its rows.
\<close>

definition aggregate_group :: "timestamp \<times> int \<Rightarrow> event_row list \<Rightarrow> rat \<Rightarrow> demand_row" where
  "aggregate_group k g w =
     \<lparr>order_date = fst k,
      restaurant_id = snd k,
      order_count = int64_sum (map ev_order_count g),
      h_is_weekend = ev_is_weekend (hd g),
      h_is_lunch_rush = ev_is_lunch_rush (hd g),
      h_is_dinner_rush = ev_is_dinner_rush (hd g),
      h_weather_impact = w\<rparr>"

text \<open>
  On a table without rows the assignment under the mask of line 43 raises. The groups come
  out sorted by key. The weather column is drawn at random in the source: the draw is a
  parameter, the value \<open>weather i\<close> for the row of index \<open>i\<close>.
\<close>

definition prepare_swiggy_demand_data ::
  "raw_row list \<Rightarrow> (nat \<Rightarrow> rat) \<Rightarrow> error + demand_row list" where
  "prepare_swiggy_demand_data loaded weather =
     (if loaded = [] then Inl ValueError
      else (let df = map add_event_columns loaded;
                keys = sort (remdups (map group_key df))
            in Inr (map (\<lambda>(i, k). aggregate_group k (filter (\<lambda>r. group_key r = k) df) (weather i))
                 (enumerate 0 keys))))"

subsection \<open>create_logistics_features\<close>

text \<open>
  The table with the added columns. The order counts are 64-bit integers; the three
  columns computed from them are columns of floats, a count being converted to the float
  nearest to it. A column that can hold NaN is a column of options, \<open>None\<close> for NaN.
\<close>

record feature_row = demand_row +
  orders_last_hour :: "rat option"
  orders_last_day_same_hour :: "rat option"
  orders_3h_mean :: "rat option"
  h_is_festival :: int

text \<open>
  A transformation within groups gives each row of the frame a value computed from the
  rows of its own group up to that row, itself included and last.
\<close>

fun grouped_scan :: "('a \<Rightarrow> 'k) \<Rightarrow> ('a list \<Rightarrow> 'b) \<Rightarrow> 'a list \<Rightarrow> 'a list \<Rightarrow> 'b list" where
  "grouped_scan key f seen [] = []"
| "grouped_scan key f seen (r # rs) =
     f (filter (\<lambda>r'. key r' = key r) seen @ [r]) # grouped_scan key f (seen @ [r]) rs"

text \<open>
  \<^verbatim>\<open>shift(k)\<close>: the order count \<open>k\<close> steps back in the group, as a float, NaN when there
  is none.
\<close>

definition shift_count :: "nat \<Rightarrow> demand_row list \<Rightarrow> rat option" where
  "shift_count k s =
     (let j = length s - 1 in
      if k \<le> j then Some (int_to_float (order_count (s ! (j - k)))) else None)"

text \<open>
  \<^verbatim>\<open>rolling(3, min_periods=1).mean()\<close> runs over the counts of the group, converted to
  floats, and keeps a running state: the number of values in the window, their sum with
  the two compensations of a Kahan summation, the number of negative values, and the
  length of the run of equal values that ends at the last value added.
\<close>

record mean_state =
  nobs :: int
  sum_x :: rat
  neg_ct :: int
  compensation_add :: rat
  compensation_remove :: rat
  num_consecutive_same_value :: int
  prev_value :: rat

definition add_mean :: "rat \<Rightarrow> mean_state \<Rightarrow> mean_state" where
  "add_mean val st =
     (let y = fsub val (compensation_add st);
          t = fadd (sum_x st) y
      in st\<lparr>nobs := nobs st + 1,
            sum_x := t,
            compensation_add := fsub (fsub t (sum_x st)) y,
            neg_ct := (if val < 0 then neg_ct st + 1 else neg_ct st),
            num_consecutive_same_value :=
              (if val = prev_value st then num_consecutive_same_value st + 1 else 1),
            prev_value := val\<rparr>)"

definition remove_mean :: "rat \<Rightarrow> mean_state \<Rightarrow> mean_state" where
  "remove_mean val st =
     (let y = fsub (- val) (compensation_remove st);
          t = fadd (sum_x st) y
      in st\<lparr>nobs := nobs st - 1,
            sum_x := t,
            compensation_remove := fsub (fsub t (sum_x st)) y,
            neg_ct := (if val < 0 then neg_ct st - 1 else neg_ct st)\<rparr>)"

text \<open>
  The mean of the window, with its three repairs: a window of equal values has that value
  for mean, a window without a negative value has no negative mean, and a window of
  negative values has no positive mean. The least number of values asked for is one.
\<close>

definition calc_mean :: "mean_state \<Rightarrow> rat option" where
  "calc_mean st =
     (if 1 \<le> nobs st \<and> 0 < nobs st then
        (let result = fdiv (sum_x st) (int_to_float (nobs st)) in
         Some (if nobs st \<le> num_consecutive_same_value st then prev_value st
               else if neg_ct st = 0 \<and> result < 0 then 0
               else if neg_ct st = nobs st \<and> 0 < result then 0
               else result))
      else None)"

text \<open>
  The state after the value of index \<open>i\<close>: the first value starts the window; from the
  index 3 on, the value three steps back leaves the window before the new one enters.
\<close>

fun roll_mean :: "rat list \<Rightarrow> nat \<Rightarrow> mean_state" where
  "roll_mean vals 0 =
     add_mean (vals ! 0)
       \<lparr>nobs = 0, sum_x = 0, neg_ct = 0, compensation_add = 0, compensation_remove = 0,
        num_consecutive_same_value = 0, prev_value = vals ! 0\<rparr>"
| "roll_mean vals (Suc i) =
     (let st = roll_mean vals i
      in add_mean (vals ! Suc i)
           (if 3 \<le> Suc i then remove_mean (vals ! (Suc i - 3)) st else st))"

definition rolling_mean3 :: "demand_row list \<Rightarrow> rat option" where
  "rolling_mean3 s =
     calc_mean (roll_mean (map (\<lambda>r. int_to_float (order_count r)) s) (length s - 1))"

text \<open>The festival dates of the source, as days since 1970-01-01.\<close>

definition festival_dates :: "int list" where
  "festival_dates = [19289, 19308, 19351, 19383, 19424]"

definition date_of :: "timestamp \<Rightarrow> int" where
  "date_of t = t div (24 * ns_per_hour)"

definition add_features :: "demand_row list \<Rightarrow> feature_row" where
  "add_features s =
     demand_row.extend (last s)
       \<lparr>orders_last_hour = shift_count 1 s,
        orders_last_day_same_hour = shift_count 24 s,
        orders_3h_mean = rolling_mean3 s,
        h_is_festival = (if date_of (order_date (last s)) \<in> set festival_dates then 1 else 0)\<rparr>"

text \<open>The table before the fill.\<close>

definition features_prefill :: "demand_row list \<Rightarrow> feature_row list" where
  "features_prefill df =
     grouped_scan restaurant_id add_features []
       (sort_key (\<lambda>r. (restaurant_id r, order_date r)) df)"

text \<open>
  \<^verbatim>\<open>fillna(method='bfill')\<close> gives a NaN the next value below it in its column, and
  \<^verbatim>\<open>fillna(method='ffill')\<close> the last value above it; both run over the whole column,
  across the restaurants. Only the three columns of options can hold a NaN.
\<close>

fun bfill :: "'a option list \<Rightarrow> 'a option list" where
  "bfill [] = []"
| "bfill (Some v # xs) = Some v # bfill xs"
| "bfill (None # xs) = (case bfill xs of [] \<Rightarrow> [None] | y # ys \<Rightarrow> y # y # ys)"

fun ffill_from :: "'a option \<Rightarrow> 'a option list \<Rightarrow> 'a option list" where
  "ffill_from prev [] = []"
| "ffill_from prev (Some v # xs) = Some v # ffill_from (Some v) xs"
| "ffill_from prev (None # xs) = prev # ffill_from prev xs"

definition ffill :: "'a option list \<Rightarrow> 'a option list" where
  "ffill xs = ffill_from None xs"

definition fillna :: "'a option list \<Rightarrow> 'a option list" where
  "fillna xs = ffill (bfill xs)"

definition create_logistics_features :: "demand_row list \<Rightarrow> feature_row list" where
  "create_logistics_features df =
     (let pre = features_prefill df;
          c1 = fillna (map orders_last_hour pre);
          c24 = fillna (map orders_last_day_same_hour pre);
          cm = fillna (map orders_3h_mean pre)
      in map (\<lambda>(r, a, b, c).
                r\<lparr>orders_last_hour := a, orders_last_day_same_hour := b, orders_3h_mean := c\<rparr>)
           (zip pre (zip c1 (zip c24 cm))))"

section \<open>Worked inputs\<close>

text \<open>
  A stand-in for a fitted model: it predicts the listed values, hour by hour, with the
  interval bounds equal to the prediction; its two rush columns hold the flags of the
  future row, as they do when both rush coefficients of the model are one.
\<close>

definition echo_model :: "float64 list \<Rightarrow> future_row list \<Rightarrow> forecast_row list" where
  "echo_model ys future =
     map (\<lambda>(r, y). \<lparr>f_ds = ds r, yhat = y, yhat_lower = y, yhat_upper = y,
                     f_is_lunch_rush = Fin (of_int (is_lunch_rush r)),
                     f_is_dinner_rush = Fin (of_int (is_dinner_rush r))\<rparr>)
       (zip future ys)"

text \<open>Three sales events: two of one restaurant in the hour 13, one of another in the hour 20.\<close>

definition lunch_events :: "raw_row list" where
  "lunch_events =
     [\<lparr>date = 13 * ns_per_hour + 5, store = 3, item = 1, sales = 4\<rparr>,
      \<lparr>date = 13 * ns_per_hour + 7, store = 3, item = 2, sales = 5\<rparr>,
      \<lparr>date = 20 * ns_per_hour, store = 4, item = 2, sales = 6\<rparr>]"

text \<open>Two forecasts of two hours: 500 orders in each hour, and no order in either.\<close>

definition five_hundreds :: "forecast_result list" where
  "five_hundreds =
     [\<lparr>hour = ns_per_hour, predicted_orders = 500, delivery_partners_needed = 300,
       confidence_interval = ''500-500'', rush_period = ''Regular''\<rparr>,
      \<lparr>hour = 2 * ns_per_hour, predicted_orders = 500, delivery_partners_needed = 300,
       confidence_interval = ''500-500'', rush_period = ''Regular''\<rparr>]"

definition zero_hours :: "forecast_result list" where
  "zero_hours =
     [\<lparr>hour = ns_per_hour, predicted_orders = 0, delivery_partners_needed = 1,
       confidence_interval = ''0-0'', rush_period = ''Regular''\<rparr>,
      \<lparr>hour = 2 * ns_per_hour, predicted_orders = 0, delivery_partners_needed = 1,
       confidence_interval = ''-3--3'', rush_period = ''Regular''\<rparr>]"

text \<open>
  A stand-in closer to the library: in the frame that \<^verbatim>\<open>predict\<close> returns, the column named
  after an extra regressor holds the contribution of the regressor to the prediction, its
  fitted coefficient times its value, and not the value. The two coefficients are
  parameters. A day of ten orders an hour is forecast with both coefficients zero, and
  with both different from zero.
\<close>

definition effect_model :: "rat \<Rightarrow> rat \<Rightarrow> float64 list \<Rightarrow> future_row list \<Rightarrow> forecast_row list" where
  "effect_model lunch_coef dinner_coef ys future =
     map (\<lambda>(r, y). \<lparr>f_ds = ds r, yhat = y, yhat_lower = y, yhat_upper = y,
                     f_is_lunch_rush = Fin (lunch_coef * of_int (is_lunch_rush r)),
                     f_is_dinner_rush = Fin (dinner_coef * of_int (is_dinner_rush r))\<rparr>)
       (zip future ys)"

definition zero_effect_day :: "future_row list \<Rightarrow> forecast_row list" where
  "zero_effect_day = effect_model 0 0 (replicate 24 (Fin 10))"

definition rush_effect_day :: "future_row list \<Rightarrow> forecast_row list" where
  "rush_effect_day = effect_model (5 / 2) (7 / 4) (replicate 24 (Fin 10))"

text \<open>A forecast row with both rush columns set.\<close>

definition both_flags_row :: forecast_row where
  "both_flags_row = \<lparr>f_ds = 0, yhat = Fin 25, yhat_lower = Fin 20, yhat_upper = Fin 30,
     f_is_lunch_rush = Fin 1, f_is_dinner_rush = Fin 1\<rparr>"

text \<open>Forecast rows with a negative prediction and with an undefined one.\<close>

definition negative_row :: forecast_row where
  "negative_row = \<lparr>f_ds = 0, yhat = Fin (- 7 / 2), yhat_lower = Fin (- 9), yhat_upper = Fin 2,
     f_is_lunch_rush = Fin 0, f_is_dinner_rush = Fin 0\<rparr>"

definition nan_row :: forecast_row where
  "nan_row = \<lparr>f_ds = 0, yhat = NaN, yhat_lower = Fin 20, yhat_upper = Fin 30,
     f_is_lunch_rush = Fin 0, f_is_dinner_rush = Fin 0\<rparr>"

text \<open>
  Hourly tables: one observation; two observations of one restaurant, the later one first;
  48 hourly observations of restaurant 7 with order counts alternating between 10 and 20;
  and the same with one observation of restaurant 3 added.
\<close>

definition single_observation :: "demand_row list" where
  "single_observation =
     [\<lparr>order_date = 0, restaurant_id = 1, order_count = 10, h_is_weekend = 0,
       h_is_lunch_rush = 0, h_is_dinner_rush = 0, h_weather_impact = 0\<rparr>]"

definition two_observations :: "demand_row list" where
  "two_observations =
     [\<lparr>order_date = ns_per_hour, restaurant_id = 1, order_count = 20, h_is_weekend = 0,
       h_is_lunch_rush = 0, h_is_dinner_rush = 0, h_weather_impact = 0\<rparr>,
      \<lparr>order_date = 0, restaurant_id = 1, order_count = 10, h_is_weekend = 0,
       h_is_lunch_rush = 0, h_is_dinner_rush = 0, h_weather_impact = 0\<rparr>]"

definition alternating_history :: "demand_row list" where
  "alternating_history =
     map (\<lambda>i. \<lparr>order_date = i * ns_per_hour, restaurant_id = 7,
               order_count = (if even i then 10 else 20), h_is_weekend = 0,
               h_is_lunch_rush = 0, h_is_dinner_rush = 0, h_weather_impact = 0\<rparr>) [0..47]"

definition two_restaurants :: "demand_row list" where
  "two_restaurants =
     alternating_history @
     [\<lparr>order_date = 0, restaurant_id = 3, order_count = 99, h_is_weekend = 0,
       h_is_lunch_rush = 0, h_is_dinner_rush = 0, h_weather_impact = 0\<rparr>]"

section \<open>Properties\<close>

subsection \<open>Rounding to 53 bits\<close>

lemma round_half_even_nonneg: "0 \<le> y \<Longrightarrow> 0 \<le> round_half_even y"
  by (auto simp: round_half_even_def Let_def)

lemma round_double_nonneg: "0 \<le> x \<Longrightarrow> 0 \<le> round_double x"
  by (auto simp: round_double_def Let_def intro!: mult_nonneg_nonneg round_half_even_nonneg
      divide_nonneg_nonneg)

lemma quotient_of_abs_pos:
  assumes "x \<noteq> 0" "quotient_of \<bar>x\<bar> = (p, q)"
  shows "0 < p" "0 < q" "\<bar>x\<bar> = of_int p / of_int q"
proof -
  show q: "0 < q" using assms(2) by (rule quotient_of_denom_pos)
  show e: "\<bar>x\<bar> = of_int p / of_int q" using assms(2) by (rule quotient_of_div)
  have "0 < \<bar>x\<bar>" using assms(1) by simp
  with e q show "0 < p" by (simp add: zero_less_divide_iff)
qed

lemma bitlen_powi_bounds:
  assumes "0 < p"
  shows "(2::rat) powi (bitlen p - 1) \<le> of_int p" "of_int p < (2::rat) powi bitlen p"
proof -
  have b1: "1 \<le> bitlen p" using assms by (auto simp: bitlen_alt_def)
  from bitlen_bounds[OF assms] have "2 ^ nat (bitlen p - 1) \<le> p" "p < 2 ^ nat (bitlen p)" by auto
  then have "rat_of_int (2 ^ nat (bitlen p - 1)) \<le> of_int p" "rat_of_int p < of_int (2 ^ nat (bitlen p))"
    by (simp_all only: of_int_le_iff of_int_less_iff)
  then show "(2::rat) powi (bitlen p - 1) \<le> of_int p" "of_int p < (2::rat) powi bitlen p"
    using b1 by (simp_all add: power_int_def)
qed

lemma ilog2_bounds:
  assumes "x \<noteq> 0"
  shows "2 powi ilog2 x \<le> \<bar>x\<bar>" and "\<bar>x\<bar> < 2 powi (ilog2 x + 1)"
proof -
  obtain p q where pq: "quotient_of \<bar>x\<bar> = (p, q)" by (cases "quotient_of \<bar>x\<bar>")
  note h = quotient_of_abs_pos[OF assms pq]
  define a where "a = bitlen p"
  define b where "b = bitlen q"
  note pa = bitlen_powi_bounds[OF h(1), folded a_def]
  note qb = bitlen_powi_bounds[OF h(2), folded b_def]
  have qpos: "(0::rat) < of_int q" using h(2) by simp
  have ppos: "(0::rat) < of_int p" using h(1) by simp
  have "of_int p / of_int q < (2::rat) powi a / 2 powi (b - 1)"
    using pa(2) qb(1) qpos ppos by (intro frac_less) (auto simp: less_imp_le)
  then have up: "\<bar>x\<bar> < 2 powi (a - b + 1)"
    by (simp add: h(3) power_int_diff power_int_add)
  have "(2::rat) powi (a - 1) / 2 powi b \<le> of_int p / of_int q"
    using pa(1) qb(2) qpos ppos by (intro frac_le) (auto simp: less_imp_le)
  then have lo: "2 powi (a - b - 1) \<le> \<bar>x\<bar>"
    by (simp add: h(3) power_int_diff)
  have il: "ilog2 x = (if 2 powi (a - b) \<le> \<bar>x\<bar> then a - b else a - b - 1)"
    by (simp add: ilog2_def pq a_def b_def Let_def)
  show "2 powi ilog2 x \<le> \<bar>x\<bar>" using lo by (simp add: il)
  show "\<bar>x\<bar> < 2 powi (ilog2 x + 1)" using up by (auto simp: il not_le)
qed

lemma ilog2_le: "x \<noteq> 0 \<Longrightarrow> \<bar>x\<bar> < 2 powi k \<Longrightarrow> ilog2 x < k"
  using ilog2_bounds(1)[of x] power_int_strict_increasing[of k "ilog2 x" "2::rat"]
  by (cases "ilog2 x < k") (auto simp: not_less dest: power_int_increasing[of k "ilog2 x" "2::rat"])

lemma ilog2_ge: "x \<noteq> 0 \<Longrightarrow> 2 powi k \<le> \<bar>x\<bar> \<Longrightarrow> k \<le> ilog2 x"
  using ilog2_bounds(2)[of x] power_int_increasing[of "ilog2 x + 1" k "2::rat"]
  by (cases "k \<le> ilog2 x") auto

lemma round_half_even_of_int: "round_half_even (of_int k) = k"
  by (simp add: round_half_even_def)

lemma round_half_even_upper: "of_int (round_half_even y) \<le> y + 1 / 2"
  unfolding round_half_even_def Let_def
  by (auto simp: not_less) linarith+

lemma round_half_even_lower: "y - 1 / 2 \<le> of_int (round_half_even y)"
  unfolding round_half_even_def Let_def
  by (auto simp: not_less) linarith+

lemma round_half_even_near:
  assumes "\<bar>y - of_int k\<bar> < 1 / 2"
  shows "round_half_even y = k"
proof -
  have "of_int (round_half_even y) < (of_int k :: rat) + 1"
    using round_half_even_upper[of y] assms by linarith
  moreover have "(of_int k :: rat) - 1 < of_int (round_half_even y)"
    using round_half_even_lower[of y] assms by linarith
  ultimately have "rat_of_int (round_half_even y) < of_int (k + 1)"
    "rat_of_int (k - 1) < of_int (round_half_even y)"
    by simp_all
  then have "round_half_even y < k + 1" "k - 1 < round_half_even y"
    by (simp_all only: of_int_less_iff)
  then show ?thesis by simp
qed

lemma round_double_grid:
  assumes "x \<noteq> 0" "- 1022 \<le> ilog2 x"
  shows "round_double x = of_int (round_half_even (x * 2 powi (52 - ilog2 x))) * 2 powi (ilog2 x - 52)"
proof -
  have "max (ilog2 x) (- 1022) = ilog2 x" using assms(2) by simp
  moreover have "x / 2 powi (ilog2 x - 52) = x * 2 powi (52 - ilog2 x)"
    by (simp add: power_int_diff)
  ultimately show ?thesis using assms(1) by (simp add: round_double_def Let_def)
qed

lemma round_double_of_int:
  assumes "\<bar>k\<bar> < 2 ^ 53"
  shows "round_double (of_int k) = of_int k"
proof (cases "k = 0")
  case True
  then show ?thesis by (simp add: round_double_def)
next
  case False
  define x :: rat where "x = of_int k"
  have x0: "x \<noteq> 0" using False by (simp add: x_def)
  have "1 \<le> \<bar>k\<bar>" using False by simp
  then have "(1::rat) \<le> \<bar>x\<bar>" unfolding x_def
    by (metis of_int_1 of_int_abs of_int_le_iff)
  then have "2 powi 0 \<le> \<bar>x\<bar>" by simp
  then have lo: "0 \<le> ilog2 x" using x0 by (rule ilog2_ge[rotated])
  have "\<bar>x\<bar> < 2 powi 53" unfolding x_def using assms
    by (metis of_int_abs of_int_less_iff of_int_numeral of_int_power power_int_numeral)
  then have hi: "ilog2 x < 53" using x0 by (rule ilog2_le[rotated])
  define s where "s = nat (52 - ilog2 x)"
  have s: "52 - ilog2 x = int s" using hi by (simp add: s_def)
  have s': "ilog2 x - 52 = - int s" using hi by (simp add: s_def)
  have "x * 2 powi (52 - ilog2 x) = x * 2 ^ s"
    by (simp only: s power_int_of_nat)
  also have "\<dots> = of_int (k * 2 ^ s)"
    by (simp add: x_def)
  finally have "x * 2 powi (52 - ilog2 x) = of_int (k * 2 ^ s)" .
  then have "round_half_even (x * 2 powi (52 - ilog2 x)) = k * 2 ^ s"
    by (simp only: round_half_even_of_int)
  then have "round_double x = of_int (k * 2 ^ s) * 2 powi (- int s)"
    using round_double_grid[OF x0] lo by (simp add: s')
  also have "\<dots> = x" by (simp add: x_def power_int_minus)
  finally show ?thesis by (simp add: x_def)
qed

lemma round_double_dyadic:
  assumes m: "\<bar>m\<bar> < 2 ^ 53" and k: "k \<le> 1022"
  shows "round_double (of_int m / 2 ^ k) = of_int m / 2 ^ k"
proof (cases "m = 0")
  case True
  then show ?thesis by (simp add: round_double_def)
next
  case False
  define x :: rat where "x = of_int m / 2 ^ k"
  have x0: "x \<noteq> 0" using False by (simp add: x_def)
  have ax: "\<bar>x\<bar> = of_int \<bar>m\<bar> / 2 ^ k" by (simp add: x_def)
  have "1 \<le> \<bar>m\<bar>" using False by simp
  then have "rat_of_int 1 \<le> of_int \<bar>m\<bar>" by (simp only: of_int_le_iff)
  then have "1 / 2 ^ k \<le> \<bar>x\<bar>" unfolding ax by (intro divide_right_mono) simp_all
  then have "2 powi (- int k) \<le> \<bar>x\<bar>" by (simp add: power_int_minus_divide)
  then have lo: "- int k \<le> ilog2 x" using x0 by (rule ilog2_ge[rotated])
  have "rat_of_int \<bar>m\<bar> < of_int (2 ^ 53)" using m by (simp only: of_int_less_iff)
  then have "\<bar>x\<bar> < 2 ^ 53 / 2 ^ k" unfolding ax by (intro divide_strict_right_mono) simp_all
  then have "\<bar>x\<bar> < 2 powi (53 - int k)" by (simp add: power_int_diff)
  then have hi: "ilog2 x < 53 - int k" using x0 by (rule ilog2_le[rotated])
  define s where "s = nat (52 - ilog2 x - int k)"
  have s: "52 - ilog2 x = int (s + k)" and s': "ilog2 x - 52 = - int (s + k)"
    using hi by (simp_all add: s_def)
  have "x * 2 powi (52 - ilog2 x) = x * 2 ^ (s + k)"
    by (simp only: s power_int_of_nat)
  also have "\<dots> = of_int (m * 2 ^ s)"
    by (simp add: x_def power_add)
  finally have "round_half_even (x * 2 powi (52 - ilog2 x)) = m * 2 ^ s"
    by (simp only: round_half_even_of_int)
  moreover have "- 1022 \<le> ilog2 x" using lo k by simp
  ultimately have "round_double x = of_int (m * 2 ^ s) * 2 powi (- int (s + k))"
    using round_double_grid[OF x0] by (simp only: s')
  also have "(2::rat) powi (- int (s + k)) = 1 / 2 ^ (s + k)"
    by (simp only: power_int_minus_divide power_int_of_nat)
  also have "of_int (m * 2 ^ s) * (1 / 2 ^ (s + k)) = x" by (simp add: x_def power_add)
  finally show ?thesis by (simp add: x_def)
qed

lemma round_double_quarters:
  assumes "\<bar>m\<bar> < 2 ^ 53"
  shows "round_double (of_int m / 4) = of_int m / 4"
  using round_double_dyadic[OF assms, of 2] by simp

lemma round_double_halves:
  assumes "\<bar>m\<bar> < 2 ^ 53"
  shows "round_double (of_int m / 2) = of_int m / 2"
  using round_double_dyadic[OF assms, of 1] by simp

lemma int_to_float_exact: "\<bar>n\<bar> < 2 ^ 53 \<Longrightarrow> int_to_float n = of_int n"
  unfolding int_to_float_def by (rule round_double_of_int)

lemma int_to_float_exact_le:
  assumes "\<bar>n\<bar> \<le> 2 ^ 53"
  shows "int_to_float n = of_int n"
proof -
  have p: "int_to_float (2 ^ 53) = of_int (2 ^ 53)" by code_simp
  have m: "int_to_float (- (2 ^ 53)) = of_int (- (2 ^ 53))" by code_simp
  consider "\<bar>n\<bar> < 2 ^ 53" | "n = 2 ^ 53" | "n = - (2 ^ 53)" using assms by linarith
  then show ?thesis
  proof cases
    case 1
    then show ?thesis by (rule int_to_float_exact)
  next
    case 2
    then show ?thesis by (simp only: p)
  next
    case 3
    then show ?thesis by (simp only: m)
  qed
qed

lemma round_half_even_nonpos: "y \<le> 0 \<Longrightarrow> round_half_even y \<le> 0"
  by (auto simp: round_half_even_def Let_def)

lemma round_double_nonpos: "x \<le> 0 \<Longrightarrow> round_double x \<le> 0"
  by (auto simp: round_double_def Let_def intro!: mult_nonpos_nonneg round_half_even_nonpos
      divide_nonpos_nonneg)

lemma fadd_of_int: "\<bar>a + b\<bar> < 2 ^ 53 \<Longrightarrow> fadd (of_int a) (of_int b) = of_int (a + b)"
  using round_double_of_int[of "a + b"] by (simp add: fadd_def)

lemma fsub_of_int: "\<bar>a - b\<bar> < 2 ^ 53 \<Longrightarrow> fsub (of_int a) (of_int b) = of_int (a - b)"
  using round_double_of_int[of "a - b"] by (simp add: fsub_def)

lemma round_double_one: "round_double 1 = 1"
  using round_double_of_int[of 1] by simp

lemma py_trunc_of_int: "py_trunc (of_int k) = k"
  by (simp add: py_trunc_def)

lemma py_trunc_neg: "y < 0 \<Longrightarrow> py_trunc y \<le> 0"
  by (simp add: py_trunc_def ceiling_le_zero)

subsection \<open>The forecast loop\<close>

lemma forecast_loop_Inr:
  "forecast_loop rows acc = Inr rs \<longleftrightarrow>
     (\<exists>rs'. rs = acc @ rs' \<and> list_all2 (\<lambda>row r. forecast_entry row = Inr r) rows rs')"
proof (induction rows arbitrary: acc)
  case Nil
  then show ?case by auto
next
  case (Cons row rows)
  show ?case
  proof (cases "forecast_entry row")
    case (Inl e)
    then show ?thesis by (auto simp: list_all2_Cons1)
  next
    case (Inr r)
    then show ?thesis by (auto simp: Cons.IH list_all2_Cons1)
  qed
qed


lemma forecast_entry_finite:
  assumes "yhat row = Fin y" "yhat_lower row = Fin lo" "yhat_upper row = Fin hi"
  shows "forecast_entry row =
     Inr \<lparr>hour = f_ds row,
          predicted_orders = max 0 (py_trunc y),
          delivery_partners_needed = delivery_partners (max 0 (py_trunc y)),
          confidence_interval = str_int (py_trunc lo) @ ''-'' @ str_int (py_trunc hi),
          rush_period =
            (if truthy (f_is_lunch_rush row) then ''Lunch Rush''
             else if truthy (f_is_dinner_rush row) then ''Dinner Rush''
             else ''Regular'')\<rparr>"
  using assms by (simp add: forecast_entry_def Let_def)

lemma forecast_entry_fields:
  assumes "forecast_entry row = Inr r"
  shows "hour r = f_ds row" "0 \<le> predicted_orders r"
    "delivery_partners_needed r = delivery_partners (predicted_orders r)"
    "rush_period r =
            (if truthy (f_is_lunch_rush row) then ''Lunch Rush''
             else if truthy (f_is_dinner_rush row) then ''Dinner Rush''
             else ''Regular'')"
    "\<exists>y. yhat row = Fin y \<and> predicted_orders r = max 0 (py_trunc y)"
  using assms
  by (auto simp: forecast_entry_def Let_def split: sum.splits elim: py_int.elims)

lemma forecast_entry_not_finite:
  assumes "yhat row = NaN \<or> yhat row = PInf \<or> yhat row = NInf"
  shows "isl (forecast_entry row)"
  using assms by (auto simp: forecast_entry_def)



lemma get_demand_forecast_Inr:
  assumes "get_demand_forecast predict now hours = Inr rs"
  shows "list_all2 (\<lambda>row r. forecast_entry row = Inr r)
     (predict (map future_features (map (\<lambda>i. floor_hour now + i * ns_per_hour) [1..hours]))) rs"
  using assms
  by (auto simp: get_demand_forecast_def future_dates_def forecast_loop_Inr split: if_splits)




subsection \<open>The staffing ratio\<close>

lemma c06_times_5: "5 * c06 = 3 - 1 / 2 ^ 53"
  by (simp add: c06_def)

lemma delivery_product_exact:
  assumes n0: "0 \<le> n" and n50: "n < 2 ^ 50"
  shows "py_trunc (round_double (of_int n * c06)) = (3 * n) div 5"
proof (cases "n = 0")
  case True
  then show ?thesis by (simp add: round_double_def py_trunc_def)
next
  case False
  define x :: rat where "x = of_int n * c06"
  define q where "q = (3 * n) div 5"
  define r where "r = (3 * n) mod 5"
  have n1: "1 \<le> n" using False n0 by simp
  have "rat_of_int 1 \<le> of_int n" "rat_of_int n < of_int (2 ^ 50)"
    using n1 n50 by (simp_all only: of_int_le_iff of_int_less_iff)
  then have nr: "(1::rat) \<le> of_int n" "(of_int n :: rat) < 1125899906842624"
    by simp_all
  have qr: "3 * n = 5 * q + r" "0 \<le> r" "r < 5" by (simp_all add: q_def r_def)
  have q0: "0 \<le> q" using n0 by (simp add: q_def)
  have qrr: "3 * (of_int n :: rat) = 5 * of_int q + of_int r"
    using qr(1) by (metis of_int_add of_int_mult of_int_numeral)
  have x5: "5 * x = 3 * of_int n - of_int n / 9007199254740992"
    using c06_times_5 by (simp add: x_def algebra_simps)
  have xq: "x = of_int q + of_int r / 5 - of_int n / 45035996273704960"
    using x5 qrr by simp
  have xlo: "1 / 2 \<le> x" using x5 nr by simp
  have xhi: "x < 1125899906842624" using x5 nr by simp
  have x0: "x \<noteq> 0" using xlo by simp
  have ax: "\<bar>x\<bar> = x" using xlo by simp
  have "2 powi (- 1) \<le> \<bar>x\<bar>" using xlo ax by simp
  then have elo: "- 1 \<le> ilog2 x" using x0 by (rule ilog2_ge[rotated])
  have "\<bar>x\<bar> < 2 powi 50" using xhi ax by simp
  then have ehi: "ilog2 x < 50" using x0 by (rule ilog2_le[rotated])
  define s where "s = nat (52 - ilog2 x)"
  define G :: rat where "G = 2 ^ s"
  have s3: "3 \<le> s" using ehi by (simp add: s_def)
  have sp: "52 - ilog2 x = int s" and sm: "ilog2 x - 52 = - int s" using ehi by (simp_all add: s_def)
  have "(2::rat) ^ 3 \<le> 2 ^ s" using s3 by (intro power_increasing) simp_all
  then have G8: "8 \<le> G" by (simp add: G_def)
  define m where "m = round_half_even (x * G)"
  have rd: "round_double x = of_int m / G"
    using round_double_grid[OF x0] elo
    by (simp only: sp sm m_def G_def power_int_of_nat power_int_minus) (simp add: field_simps)
  have xG: "x * G < 9007199254740992"
  proof -
    have "x < 2 powi (ilog2 x + 1)" using ilog2_bounds(2)[OF x0] ax by simp
    moreover have "ilog2 x + 1 = 53 - int s" using sp by simp
    ultimately have "x < 2 powi (53 - int s)" by simp
    then have "x < 2 powi 53 / 2 powi (int s)" by (simp add: power_int_diff)
    then show ?thesis by (simp add: G_def field_simps)
  qed
  have goal: "\<lfloor>of_int m / G\<rfloor> = q"
  proof (cases "r = 0")
    case True
    have xq0: "x = of_int q - of_int n / 45035996273704960" using xq True by simp
    have nG: "of_int n * G < 22517998136852480"
    proof -
      define w where "w = of_int n * G"
      have "x * G = (5404319552844595 / 9007199254740992) * w"
        by (simp add: x_def c06_def w_def)
      with xG have "(5404319552844595 / 9007199254740992) * w < 9007199254740992" by simp
      then have "w < 22517998136852480" by linarith
      then show ?thesis by (simp add: w_def)
    qed
    have "x * G - of_int (q * 2 ^ s) = - (of_int n * G) / 45035996273704960"
      by (simp add: xq0 G_def algebra_simps)
    moreover have "0 \<le> of_int n * G" using nr G8 by simp
    ultimately have "\<bar>x * G - of_int (q * 2 ^ s)\<bar> < 1 / 2" using nG by (simp add: mult.commute)
    then have "m = q * 2 ^ s" unfolding m_def by (rule round_half_even_near)
    then have "of_int m / G = of_int q" using G8 by (simp add: G_def)
    then show ?thesis by simp
  next
    case False
    then have r1: "(1::rat) \<le> of_int r" "(of_int r :: rat) \<le> 4" using qr by simp_all
    have lo: "of_int q < x" using xq r1 nr by simp
    have hi: "x \<le> of_int q + 4 / 5" using xq r1 nr by simp
    have "of_int q * G < x * G" using lo G8 by simp
    then have "of_int q * G - 1 < of_int m"
      using round_half_even_lower[of "x * G"] by (simp add: m_def)
    then have "rat_of_int (q * 2 ^ s - 1) < of_int m" by (simp add: G_def)
    then have "q * 2 ^ s - 1 < m" by (simp only: of_int_less_iff)
    then have "q * 2 ^ s \<le> m" by simp
    then have "rat_of_int (q * 2 ^ s) \<le> of_int m" by (simp only: of_int_le_iff)
    then have a: "of_int q \<le> of_int m / G" using G8 by (simp add: G_def field_simps)
    have "x * G \<le> (of_int q + 4 / 5) * G" using hi G8 by simp
    also have "\<dots> = (of_int q + 1) * G - G / 5" by (simp add: algebra_simps)
    finally have "of_int m < (of_int q + 1) * G"
      using round_half_even_upper[of "x * G"] G8 by (simp add: m_def)
    then have b: "of_int m / G < of_int q + 1" using G8 by (simp add: field_simps)
    from a b show ?thesis by (simp add: floor_unique)
  qed
  have "0 \<le> round_double x" using xlo by (intro round_double_nonneg) simp
  then show ?thesis using goal rd by (simp add: py_trunc_def x_def q_def)
qed

lemma floor_three_fifths: "\<lfloor>(of_int n :: rat) * 3 / 5\<rfloor> = (3 * n) div 5"
proof -
  have "(of_int n :: rat) * 3 / 5 = of_int (3 * n) / of_int 5" by simp
  then show ?thesis by (simp only: floor_divide_of_int_eq)
qed

lemma delivery_partners_exact:
  assumes "0 \<le> n" "n < 2 ^ 50"
  shows "delivery_partners n = max 1 ((3 * n) div 5)"
proof -
  have "\<bar>n\<bar> < 2 ^ 53" using assms by simp
  then have "int_to_float n = of_int n" by (rule int_to_float_exact)
  then show ?thesis
    using delivery_product_exact[OF assms] by (simp only: delivery_partners_def fmul_def)
qed

lemma delivery_partners_zero: "delivery_partners 0 = 1"
  using delivery_partners_exact[of 0] by simp

lemma both_flags_entry:
  "forecast_entry both_flags_row =
     Inr \<lparr>hour = 0, predicted_orders = 25, delivery_partners_needed = 15,
          confidence_interval = ''20-30'', rush_period = ''Lunch Rush''\<rparr>"
  by code_simp

text \<open>
  C1. For every predicted order count \<open>n \<ge> 0\<close>, zero included, the number of delivery partners
  is the larger of 1 and the floor of the float product of \<open>n\<close> and 0.6, and it is at
  least 1. Below \<open>2 ^ 50\<close> orders the rounding of the float product does not show: the number
  is the larger of 1 and the floor of three fifths of \<open>n\<close>. Every entry of a forecast holds
  this number for its predicted order count, which is not negative.
\<close>

theorem delivery_partners_formula:
  "(0 \<le> n \<longrightarrow>
      delivery_partners n = max 1 \<lfloor>fmul (int_to_float n) c06\<rfloor>
      \<and> 1 \<le> delivery_partners n
      \<and> (n < 2 ^ 50 \<longrightarrow> delivery_partners n = max 1 \<lfloor>(of_int n :: rat) * 3 / 5\<rfloor>))
   \<and> (forecast_entry row = Inr r \<longrightarrow>
      0 \<le> predicted_orders r
      \<and> delivery_partners_needed r = delivery_partners (predicted_orders r)
      \<and> 1 \<le> delivery_partners_needed r)"
proof (intro conjI impI)
  assume n0: "0 \<le> n"
  have "0 \<le> int_to_float n"
    unfolding int_to_float_def using n0 by (intro round_double_nonneg) simp
  then have "0 \<le> fmul (int_to_float n) c06"
    unfolding fmul_def by (intro round_double_nonneg mult_nonneg_nonneg) (simp_all add: c06_def)
  then show "delivery_partners n = max 1 \<lfloor>fmul (int_to_float n) c06\<rfloor>"
    by (simp add: delivery_partners_def py_trunc_def)
  show "1 \<le> delivery_partners n" by (simp add: delivery_partners_def)
  assume "n < 2 ^ 50"
  with n0 show "delivery_partners n = max 1 \<lfloor>(of_int n :: rat) * 3 / 5\<rfloor>"
    by (simp only: delivery_partners_exact floor_three_fifths)
next
  assume e: "forecast_entry row = Inr r"
  show "0 \<le> predicted_orders r" using e by (rule forecast_entry_fields(2))
  show d: "delivery_partners_needed r = delivery_partners (predicted_orders r)"
    using e by (rule forecast_entry_fields(3))
  show "1 \<le> delivery_partners_needed r" unfolding d by (simp add: delivery_partners_def)
qed

theorem delivery_partners_formula_witness:
  "(0::int) \<le> 7 \<and> (7::int) < 2 ^ 50 \<and> delivery_partners 7 = 4
   \<and> forecast_entry both_flags_row =
     Inr \<lparr>hour = 0, predicted_orders = 25, delivery_partners_needed = 15,
          confidence_interval = ''20-30'', rush_period = ''Lunch Rush''\<rparr>
   \<and> delivery_partners 25 = 15"
proof -
  have h: "(0::int) \<le> 7" and b: "(7::int) < 2 ^ 50" by simp_all
  from delivery_partners_formula[of 7] h b
  have "delivery_partners 7 = max 1 \<lfloor>(of_int 7 :: rat) * 3 / 5\<rfloor>" by blast
  also have "\<dots> = max 1 ((3 * 7) div 5)" by (simp only: floor_three_fifths)
  also have "\<dots> = 4" by simp
  finally have a: "delivery_partners 7 = 4" .
  from delivery_partners_formula[of _ both_flags_row] both_flags_entry
  have "delivery_partners 25 = 15" by fastforce
  with a both_flags_entry show ?thesis by simp
qed

text \<open>
  Beyond \<open>2 ^ 53\<close> orders the rounding of the float product shows.
\<close>

lemma delivery_partners_beyond_exact:
  "delivery_partners 9007199254740998 = 5404319552844599"
  "(3 * 9007199254740998) div 5 = (5404319552844598 :: int)"
  by code_simp+

subsection \<open>Predicted orders\<close>

text \<open>
  C6, as amended. Every entry of a forecast has a predicted order count of at least 0.
  A finite raw prediction is truncated towards zero and a negative result is replaced by 0;
  a raw prediction that is NaN or infinite is not replaced: the conversion raises, and the
  row yields no entry.
\<close>

theorem predicted_orders_clamped:
  "(get_demand_forecast predict now hours = Inr rs \<longrightarrow> (\<forall>r \<in> set rs. 0 \<le> predicted_orders r))
   \<and> (yhat row = Fin y \<and> yhat_lower row = Fin lo \<and> yhat_upper row = Fin hi \<longrightarrow>
        (\<exists>r. forecast_entry row = Inr r \<and> predicted_orders r = max 0 (py_trunc y)
           \<and> (y < 0 \<longrightarrow> predicted_orders r = 0)))
   \<and> (yhat row = NaN \<or> yhat row = PInf \<or> yhat row = NInf \<longrightarrow> isl (forecast_entry row))"
proof (intro conjI impI)
  assume "get_demand_forecast predict now hours = Inr rs"
  from get_demand_forecast_Inr[OF this]
  have "\<forall>r \<in> set rs. \<exists>row. forecast_entry row = Inr r"
    by (fastforce simp: list_all2_conv_all_nth in_set_conv_nth)
  then show "\<forall>r \<in> set rs. 0 \<le> predicted_orders r"
    using forecast_entry_fields(2) by blast
next
  assume a: "yhat row = Fin y \<and> yhat_lower row = Fin lo \<and> yhat_upper row = Fin hi"
  then have "forecast_entry row = Inr \<lparr>hour = f_ds row,
          predicted_orders = max 0 (py_trunc y),
          delivery_partners_needed = delivery_partners (max 0 (py_trunc y)),
          confidence_interval = str_int (py_trunc lo) @ ''-'' @ str_int (py_trunc hi),
          rush_period =
            (if truthy (f_is_lunch_rush row) then ''Lunch Rush''
             else if truthy (f_is_dinner_rush row) then ''Dinner Rush''
             else ''Regular'')\<rparr>"
    by (intro forecast_entry_finite) simp_all
  then show "\<exists>r. forecast_entry row = Inr r \<and> predicted_orders r = max 0 (py_trunc y)
           \<and> (y < 0 \<longrightarrow> predicted_orders r = 0)"
    using py_trunc_neg[of y] by auto
next
  assume "yhat row = NaN \<or> yhat row = PInf \<or> yhat row = NInf"
  then show "isl (forecast_entry row)" by (rule forecast_entry_not_finite)
qed

lemma negative_prediction_forecast: "get_demand_forecast (echo_model [Fin (- 7 / 2)]) 0 1 =
     Inr [\<lparr>hour = ns_per_hour, predicted_orders = 0, delivery_partners_needed = 1,
           confidence_interval = ''-3--3'', rush_period = ''Regular''\<rparr>]"
  by code_simp

lemma negative_row_entry:
  "forecast_entry negative_row =
     Inr \<lparr>hour = 0, predicted_orders = 0, delivery_partners_needed = 1,
          confidence_interval = ''-9-2'', rush_period = ''Regular''\<rparr>"
  by code_simp

theorem predicted_orders_clamped_witness:
  "get_demand_forecast (echo_model [Fin (- 7 / 2)]) 0 1 =
     Inr [\<lparr>hour = ns_per_hour, predicted_orders = 0, delivery_partners_needed = 1,
           confidence_interval = ''-3--3'', rush_period = ''Regular''\<rparr>]
   \<and> list_all (\<lambda>r. 0 \<le> predicted_orders r)
        [\<lparr>hour = ns_per_hour, predicted_orders = 0, delivery_partners_needed = 1,
           confidence_interval = ''-3--3'', rush_period = ''Regular''\<rparr>]
   \<and> yhat negative_row = Fin (- 7 / 2) \<and> yhat_lower negative_row = Fin (- 9)
   \<and> yhat_upper negative_row = Fin 2
   \<and> forecast_entry negative_row =
     Inr \<lparr>hour = 0, predicted_orders = 0, delivery_partners_needed = 1,
          confidence_interval = ''-9-2'', rush_period = ''Regular''\<rparr>
   \<and> yhat nan_row = NaN \<and> isl (forecast_entry nan_row)"
proof -
  have a: "list_all (\<lambda>r. 0 \<le> predicted_orders r)
        [\<lparr>hour = ns_per_hour, predicted_orders = 0, delivery_partners_needed = 1,
           confidence_interval = ''-3--3'', rush_period = ''Regular''\<rparr>]"
    using predicted_orders_clamped[of "echo_model [Fin (- 7 / 2)]" 0 1
     "[\<lparr>hour = ns_per_hour, predicted_orders = 0, delivery_partners_needed = 1,
           confidence_interval = ''-3--3'', rush_period = ''Regular''\<rparr>]"]
      negative_prediction_forecast
    by (simp only: list_all_iff) blast
  have n: "yhat negative_row = Fin (- 7 / 2)" "yhat_lower negative_row = Fin (- 9)"
    "yhat_upper negative_row = Fin 2"
    by (simp_all add: negative_row_def)
  have y: "yhat nan_row = NaN" by (simp add: nan_row_def)
  from predicted_orders_clamped[of _ _ _ _ nan_row] y
  have i: "isl (forecast_entry nan_row)" by blast
  from a n y i negative_prediction_forecast negative_row_entry show ?thesis by simp
qed

text \<open>
  C6, as stated, fails: a model whose prediction for the hour is NaN makes the forecast
  raise \<open>ValueError\<close>; the value is not clamped to 0.
\<close>

theorem undefined_prediction_counterexample:
  "get_demand_forecast (echo_model [NaN]) 0 1 = Inl ValueError"
  by code_simp

subsection \<open>The forecast horizon\<close>

lemma ns_per_hour_pos: "0 < ns_per_hour"
  by (simp add: ns_per_hour_def)

lemma floor_hour_le: "floor_hour now \<le> now" and floor_hour_gt: "now < floor_hour now + ns_per_hour"
  using ns_per_hour_pos pos_mod_bound[of ns_per_hour now] pos_mod_sign[of ns_per_hour now]
  by (simp_all add: floor_hour_def)



subsection \<open>Rush flags\<close>

lemma hour_of_floor_hour: "hour_of (floor_hour t) = hour_of t"
proof -
  have "(t - t mod ns_per_hour) div ns_per_hour = t div ns_per_hour"
    by (simp add: minus_mod_eq_div_mult ns_per_hour_def)
  then show ?thesis by (simp add: hour_of_def floor_hour_def)
qed

lemma hd_filter_sat:
  assumes "x \<in> set xs" "P x"
  shows "hd (filter P xs) \<in> set xs \<and> P (hd (filter P xs))"
proof -
  have "filter P xs \<noteq> []" using assms by (auto simp: filter_empty_conv)
  then have "hd (filter P xs) \<in> set (filter P xs)" by (rule hd_in_set)
  then show ?thesis by simp
qed

lemma prepare_row_source:
  assumes tab: "prepare_swiggy_demand_data loaded weather = Inr table"
    and mem: "row \<in> set table"
  shows "\<exists>r \<in> set loaded. order_date row = floor_hour (date r) \<and> restaurant_id row = store r
     \<and> h_is_lunch_rush row = ev_is_lunch_rush (add_event_columns r)
     \<and> h_is_dinner_rush row = ev_is_dinner_rush (add_event_columns r)"
proof -
  define df where "df = map add_event_columns loaded"
  define keys where "keys = sort (remdups (map group_key df))"
  have "table = map (\<lambda>(i, k). aggregate_group k (filter (\<lambda>r. group_key r = k) df) (weather i))
           (enumerate 0 keys)"
    using tab unfolding prepare_swiggy_demand_data_def Let_def df_def keys_def
    by (simp split: if_splits)
  with mem obtain i k where ik: "(i, k) \<in> set (enumerate 0 keys)"
    and row: "row = aggregate_group k (filter (\<lambda>r. group_key r = k) df) (weather i)"
    by auto
  from ik have "k \<in> set keys" by (auto simp: in_set_enumerate_eq)
  then have k: "k \<in> set (map group_key df)" by (simp add: keys_def)
  from k obtain e where e: "e \<in> set df" "group_key e = k" by auto
  define e' where "e' = hd (filter (\<lambda>r. group_key r = k) df)"
  from hd_filter_sat[of e df "\<lambda>r. group_key r = k"] e
  have e': "e' \<in> set df" "group_key e' = k" by (simp_all add: e'_def)
  then obtain r where r: "r \<in> set loaded" "e' = add_event_columns r" by (auto simp: df_def)
  have "order_date row = floor_hour (date r)" "restaurant_id row = store r"
    using e'(2) r(2) by (auto simp: row aggregate_group_def group_key_def add_event_columns_def)
  moreover have "h_is_lunch_rush row = ev_is_lunch_rush e'" "h_is_dinner_rush row = ev_is_dinner_rush e'"
    by (simp_all add: row aggregate_group_def e'_def)
  ultimately show ?thesis using r by auto
qed

lemma prepare_empty_raises: "prepare_swiggy_demand_data [] weather = Inl ValueError"
  by (simp add: prepare_swiggy_demand_data_def)

lemma prepare_returns:
  "loaded \<noteq> [] \<Longrightarrow> \<exists>table. prepare_swiggy_demand_data loaded weather = Inr table"
  by (simp add: prepare_swiggy_demand_data_def Let_def)

text \<open>
  C8. The lunch flag of a future row is set exactly for the hours 12 to 14 and the dinner
  flag exactly for the hours 19 to 22, so no hour carries both; the same holds for every
  row of the hourly table that \<open>prepare_swiggy_demand_data\<close> builds, and it builds one from
  every table of sales that has a row.
\<close>

theorem rush_flags_disjoint:
  "(is_lunch_rush (future_features t) = 1 \<longleftrightarrow> 12 \<le> hour_of t \<and> hour_of t \<le> 14)
   \<and> (is_dinner_rush (future_features t) = 1 \<longleftrightarrow> 19 \<le> hour_of t \<and> hour_of t \<le> 22)
   \<and> \<not> (is_lunch_rush (future_features t) = 1 \<and> is_dinner_rush (future_features t) = 1)
   \<and> (loaded \<noteq> [] \<longrightarrow> (\<exists>table. prepare_swiggy_demand_data loaded weather = Inr table))
   \<and> (\<forall>table. prepare_swiggy_demand_data loaded weather = Inr table \<longrightarrow>
        (\<forall>row \<in> set table.
          (h_is_lunch_rush row = 1 \<longleftrightarrow> 12 \<le> hour_of (order_date row) \<and> hour_of (order_date row) \<le> 14)
          \<and> (h_is_dinner_rush row = 1 \<longleftrightarrow> 19 \<le> hour_of (order_date row) \<and> hour_of (order_date row) \<le> 22)
          \<and> \<not> (h_is_lunch_rush row = 1 \<and> h_is_dinner_rush row = 1)))"
proof -
  have "(h_is_lunch_rush row = 1 \<longleftrightarrow> 12 \<le> hour_of (order_date row) \<and> hour_of (order_date row) \<le> 14)
        \<and> (h_is_dinner_rush row = 1 \<longleftrightarrow> 19 \<le> hour_of (order_date row) \<and> hour_of (order_date row) \<le> 22)
        \<and> \<not> (h_is_lunch_rush row = 1 \<and> h_is_dinner_rush row = 1)"
    if "prepare_swiggy_demand_data loaded weather = Inr table" "row \<in> set table" for table row
  proof -
    from prepare_row_source[OF that] obtain r where
      "order_date row = floor_hour (date r)"
      "h_is_lunch_rush row = ev_is_lunch_rush (add_event_columns r)"
      "h_is_dinner_rush row = ev_is_dinner_rush (add_event_columns r)" by blast
    then show ?thesis by (simp add: hour_of_floor_hour add_event_columns_def)
  qed
  then show ?thesis using prepare_returns[of loaded weather] by (simp add: future_features_def)
qed

lemma lunch_events_table:
  "prepare_swiggy_demand_data lunch_events (\<lambda>i. 0) =
     Inr [\<lparr>order_date = 13 * ns_per_hour, restaurant_id = 3, order_count = 9, h_is_weekend = 0,
       h_is_lunch_rush = 1, h_is_dinner_rush = 0, h_weather_impact = 0\<rparr>,
      \<lparr>order_date = 20 * ns_per_hour, restaurant_id = 4, order_count = 6, h_is_weekend = 0,
       h_is_lunch_rush = 0, h_is_dinner_rush = 1, h_weather_impact = 0\<rparr>]"
  by code_simp

theorem rush_flags_disjoint_witness:
  "lunch_events \<noteq> []
   \<and> (\<exists>table. prepare_swiggy_demand_data lunch_events (\<lambda>i. 0) = Inr table
        \<and> length table = 2
        \<and> list_all (\<lambda>row. \<not> (h_is_lunch_rush row = 1 \<and> h_is_dinner_rush row = 1)) table)
   \<and> is_lunch_rush (future_features (13 * ns_per_hour)) = 1"
proof -
  have ne: "lunch_events \<noteq> []" by (simp add: lunch_events_def)
  from rush_flags_disjoint[of "13 * ns_per_hour" lunch_events "\<lambda>i. 0"] ne
  obtain table where t: "prepare_swiggy_demand_data lunch_events (\<lambda>i. 0) = Inr table"
    and d: "\<forall>row \<in> set table. \<not> (h_is_lunch_rush row = 1 \<and> h_is_dinner_rush row = 1)"
    and l: "is_lunch_rush (future_features (13 * ns_per_hour)) = 1"
    by (auto simp: hour_of_def ns_per_hour_def)
  have "length table = 2" using t by (auto simp: lunch_events_table)
  moreover have "list_all (\<lambda>row. \<not> (h_is_lunch_rush row = 1 \<and> h_is_dinner_rush row = 1)) table"
    using d by (simp only: list_all_iff)
  ultimately show ?thesis using ne t l by blast
qed

subsection \<open>Rush periods\<close>

lemma rush_period_of_columns:
  assumes "forecast_entry row = Inr r"
  shows "rush_period r =
     (if truthy (f_is_lunch_rush row) then ''Lunch Rush''
      else if truthy (f_is_dinner_rush row) then ''Dinner Rush''
      else ''Regular'')"
  using assms by (rule forecast_entry_fields(4))

text \<open>
  C7. The loop takes the two rush columns from the frame that the model returns, not from
  the frame of future rows it built. The 24 future rows of a day, from the hour 0 on, have
  the lunch flag set at the hours 12 to 14 and the dinner flag at four hours. With a model
  whose two rush coefficients are zero, none of the 24 entries is labelled lunch rush or
  dinner rush: every entry is regular. With coefficients different from zero three entries
  are labelled lunch rush and four dinner rush. The label is thus not a function of the
  flags of the future row.
\<close>

theorem zero_effect_day_labels:
  "hour_of (ds (hd (future_frame (23 * ns_per_hour) 24))) = 0
   \<and> map is_lunch_rush (future_frame (23 * ns_per_hour) 24) =
       [0, 0, 0, 0, 0, 0, 0, 0, 0, 0, 0, 0, 1, 1, 1, 0, 0, 0, 0, 0, 0, 0, 0, 0]
   \<and> map is_dinner_rush (future_frame (23 * ns_per_hour) 24) =
       [0, 0, 0, 0, 0, 0, 0, 0, 0, 0, 0, 0, 0, 0, 0, 0, 0, 0, 0, 1, 1, 1, 1, 0]
   \<and> map_sum id (map rush_period) (get_demand_forecast zero_effect_day (23 * ns_per_hour) 24) =
       Inr (replicate 24 ''Regular'')
   \<and> map_sum id (\<lambda>rs. (length (filter (\<lambda>r. rush_period r = ''Lunch Rush'') rs),
                        length (filter (\<lambda>r. rush_period r = ''Dinner Rush'') rs)))
        (get_demand_forecast rush_effect_day (23 * ns_per_hour) 24) = Inr (3, 4)"
  by code_simp

subsection \<open>The summary\<close>

lemma int64_wrap_id: "int64_range x \<Longrightarrow> int64_wrap x = x"
  by (simp add: int64_range_def int64_wrap_def)

lemma int64_sum_small:
  assumes "0 \<le> sum_list xs" "sum_list xs < 2 ^ 40"
  shows "int64_sum xs = sum_list xs"
  unfolding int64_sum_def using assms by (intro int64_wrap_id) (simp add: int64_range_def)

lemma impact_metrics_sums:
  "total_orders (impact_metrics rs) = int64_wrap (sum_list (map predicted_orders rs))"
  "total_partners (impact_metrics rs) = int64_wrap (sum_list (map delivery_partners_needed rs))"
  "avg_partners_per_hour (impact_metrics rs) =
     fdiv (int_to_float (total_partners (impact_metrics rs))) (int_to_float (int (length rs)))"
  "baseline_partners (impact_metrics rs) = fmul (int_to_float (total_orders (impact_metrics rs))) c075"
  "partners_saved (impact_metrics rs) =
     fsub (baseline_partners (impact_metrics rs)) (int_to_float (total_partners (impact_metrics rs)))"
  "cost_savings (impact_metrics rs) = fmul (partners_saved (impact_metrics rs)) 150"
  by (simp_all add: impact_metrics_def Let_def int64_sum_def)

lemma impact_metrics_exact:
  assumes T: "0 \<le> sum_list (map predicted_orders rs)" "sum_list (map predicted_orders rs) < 2 ^ 40"
    and P: "0 \<le> sum_list (map delivery_partners_needed rs)"
      "sum_list (map delivery_partners_needed rs) < 2 ^ 40"
  shows "total_orders (impact_metrics rs) = sum_list (map predicted_orders rs)"
    and "total_partners (impact_metrics rs) = sum_list (map delivery_partners_needed rs)"
    and "baseline_partners (impact_metrics rs) = of_int (sum_list (map predicted_orders rs)) * 3 / 4"
    and "partners_saved (impact_metrics rs) =
       of_int (sum_list (map predicted_orders rs)) * 3 / 4
         - of_int (sum_list (map delivery_partners_needed rs))"
    and "cost_savings (impact_metrics rs) =
       (of_int (sum_list (map predicted_orders rs)) * 3 / 4
         - of_int (sum_list (map delivery_partners_needed rs))) * 150"
proof -
  define t where "t = sum_list (map predicted_orders rs)"
  define p where "p = sum_list (map delivery_partners_needed rs)"
  have wt: "int64_sum (map predicted_orders rs) = t"
    and wp: "int64_sum (map delivery_partners_needed rs) = p"
    using T P by (simp_all add: int64_sum_small t_def p_def)
  have ft: "int_to_float t = of_int t" and fp: "int_to_float p = of_int p"
    using T P by (simp_all add: int_to_float_exact t_def p_def)
  have "fmul (of_int t) c075 = round_double (of_int (3 * t) / 4)"
    by (simp add: fmul_def c075_def mult.commute)
  also have "\<dots> = of_int (3 * t) / 4"
    using T by (intro round_double_quarters) (simp add: t_def)
  finally have b: "fmul (of_int t) c075 = of_int t * 3 / 4" by simp
  have "rat_of_int t * 3 / 4 - of_int p = of_int (3 * t - 4 * p) / 4"
    by (simp add: field_simps)
  then have "fsub (of_int t * 3 / 4) (of_int p) = round_double (of_int (3 * t - 4 * p) / 4)"
    by (simp only: fsub_def)
  also have "\<dots> = of_int (3 * t - 4 * p) / 4"
    using T P by (intro round_double_quarters) (simp add: t_def p_def)
  finally have s: "fsub (of_int t * 3 / 4) (of_int p) = of_int t * 3 / 4 - of_int p"
    by (simp add: field_simps)
  have "(rat_of_int t * 3 / 4 - of_int p) * 150 = of_int (75 * (3 * t - 4 * p)) / 2"
    by (simp add: field_simps)
  then have "fmul (of_int t * 3 / 4 - of_int p) 150 = round_double (of_int (75 * (3 * t - 4 * p)) / 2)"
    by (simp only: fmul_def)
  also have "\<dots> = of_int (75 * (3 * t - 4 * p)) / 2"
    using T P by (intro round_double_halves) (simp add: t_def p_def)
  finally have c: "fmul (of_int t * 3 / 4 - of_int p) 150 = (of_int t * 3 / 4 - of_int p) * 150"
    by (simp add: field_simps)
  have m: "impact_metrics rs =
      \<lparr>total_orders = t, total_partners = p,
       avg_partners_per_hour = fdiv (of_int p) (int_to_float (int (length rs))),
       baseline_partners = of_int t * 3 / 4,
       partners_saved = of_int t * 3 / 4 - of_int p,
       cost_savings = (of_int t * 3 / 4 - of_int p) * 150\<rparr>"
    unfolding impact_metrics_def Let_def wt wp ft fp b s c ..
  show "total_orders (impact_metrics rs) = sum_list (map predicted_orders rs)"
    by (simp add: m t_def)
  show "total_partners (impact_metrics rs) = sum_list (map delivery_partners_needed rs)"
    by (simp add: m p_def)
  show "baseline_partners (impact_metrics rs) = of_int (sum_list (map predicted_orders rs)) * 3 / 4"
    by (simp add: m t_def)
  show "partners_saved (impact_metrics rs) =
       of_int (sum_list (map predicted_orders rs)) * 3 / 4
         - of_int (sum_list (map delivery_partners_needed rs))"
    by (simp add: m t_def p_def)
  show "cost_savings (impact_metrics rs) =
       (of_int (sum_list (map predicted_orders rs)) * 3 / 4
         - of_int (sum_list (map delivery_partners_needed rs))) * 150"
    by (simp add: m t_def p_def)
qed

lemma impact_metrics_avg_exact:
  assumes "0 \<le> total_partners (impact_metrics rs)" "total_partners (impact_metrics rs) < 2 ^ 40"
    "length rs < 2 ^ 40"
  shows "avg_partners_per_hour (impact_metrics rs) =
     round_double (of_int (total_partners (impact_metrics rs)) / of_int (int (length rs)))"
proof -
  have "int_to_float (total_partners (impact_metrics rs)) = of_int (total_partners (impact_metrics rs))"
    using assms by (intro int_to_float_exact) simp
  moreover have "int (length rs) < 2 ^ 40" using assms(3) by (simp flip: of_nat_less_iff)
  then have "int_to_float (int (length rs)) = of_int (int (length rs))"
    by (intro int_to_float_exact) simp
  ultimately show ?thesis by (simp only: impact_metrics_sums(3) fdiv_def)
qed

lemma calculate_logistics_impact_nonempty:
  assumes "rs \<noteq> []"
  shows "calculate_logistics_impact rs =
     Inr \<lparr>total_predicted_orders = total_orders (impact_metrics rs),
          delivery_partners_saved = py_trunc (partners_saved (impact_metrics rs)),
          estimated_cost_savings =
            rupee @ format_thousands (py_trunc (cost_savings (impact_metrics rs))),
          avg_delivery_partners = np_round1 (avg_partners_per_hour (impact_metrics rs))\<rparr>"
  using assms by (simp add: calculate_logistics_impact_def Let_def)

lemma empty_forecast_raises: "calculate_logistics_impact [] = Inl KeyError"
  by (simp add: calculate_logistics_impact_def)

lemma sum_list_member_le:
  fixes f :: "'a \<Rightarrow> int"
  assumes "\<forall>x \<in> set xs. 0 \<le> f x" "x \<in> set xs"
  shows "f x \<le> sum_list (map f xs)"
  using assms
proof (induction xs)
  case Nil
  then show ?case by simp
next
  case (Cons a xs)
  have "0 \<le> sum_list (map f xs)" using Cons.prems(1) by (intro sum_list_nonneg) auto
  moreover have "0 \<le> f a" using Cons.prems(1) by simp
  ultimately show ?case using Cons by (cases "x = a") force+
qed

lemma sum_list_scaled:
  fixes f g :: "'a \<Rightarrow> int"
  assumes "\<forall>x \<in> set xs. a * f x = b * g x"
  shows "a * sum_list (map f xs) = b * sum_list (map g xs)"
  using assms by (induction xs) (simp_all add: algebra_simps)

lemma sum_list_const:
  fixes f :: "'a \<Rightarrow> int"
  assumes "\<forall>x \<in> set xs. f x = c"
  shows "sum_list (map f xs) = c * int (length xs)"
  using assms by (induction xs) (simp_all add: algebra_simps)

lemma multiples_of_five_partners:
  assumes all: "\<forall>r \<in> set rs. delivery_partners_needed r = delivery_partners (predicted_orders r)
      \<and> 0 < predicted_orders r \<and> 5 dvd predicted_orders r"
    and total: "sum_list (map predicted_orders rs) < 2 ^ 50"
  shows "5 * sum_list (map delivery_partners_needed rs) = 3 * sum_list (map predicted_orders rs)"
proof (rule sum_list_scaled, rule ballI)
  fix r assume r: "r \<in> set rs"
  define n where "n = predicted_orders r"
  have n: "0 < n" "5 dvd n" and d: "delivery_partners_needed r = delivery_partners n"
    using all r by (simp_all add: n_def)
  have "n \<le> sum_list (map predicted_orders rs)"
    unfolding n_def using all r by (intro sum_list_member_le) (auto simp: less_imp_le)
  then have "n < 2 ^ 50" using total by simp
  then have "delivery_partners n = max 1 ((3 * n) div 5)"
    using n(1) by (intro delivery_partners_exact) simp_all
  moreover obtain k where k: "n = 5 * k" using n(2) by (auto simp: dvd_def)
  moreover have "1 \<le> k" using n(1) k by simp
  ultimately have "delivery_partners n = 3 * k" by simp
  then show "5 * delivery_partners_needed r = 3 * predicted_orders r"
    using d k by (simp add: n_def)
qed

lemma np_round1_one: "np_round1 1 = 1"
  by code_simp

text \<open>
  C2, as amended. Take a forecast that is not empty and whose counts fit in 64 bits. The
  summary takes the total of the predicted orders and the total of the partners staffed
  as 64-bit sums over the hours, the baseline as the float product of the total orders and
  0.75, the partners saved as the baseline minus the partners staffed, the cost savings as
  the partners saved times 150 and the average as the partners staffed divided by the
  number of hours. When the two sums are not negative and below \<open>2 ^ 40\<close>, as is the number
  of hours, nothing wraps and nothing is rounded but the average: the totals are the sums
  and the float results are the exact ones. When every hour predicts a positive multiple
  of five orders and the predicted orders sum to 1000, the baseline is 750, the partners
  staffed are 600 and the partners saved are 150.
\<close>

theorem logistics_impact_summary:
  assumes ne: "rs \<noteq> []"
    and fit: "\<forall>r \<in> set rs. int64_range (predicted_orders r)
       \<and> int64_range (delivery_partners_needed r)"
  shows "total_orders (impact_metrics rs) = int64_wrap (sum_list (map predicted_orders rs))
    \<and> total_partners (impact_metrics rs) = int64_wrap (sum_list (map delivery_partners_needed rs))
    \<and> baseline_partners (impact_metrics rs) = fmul (int_to_float (total_orders (impact_metrics rs))) c075
    \<and> partners_saved (impact_metrics rs) =
        fsub (baseline_partners (impact_metrics rs)) (int_to_float (total_partners (impact_metrics rs)))
    \<and> cost_savings (impact_metrics rs) = fmul (partners_saved (impact_metrics rs)) 150
    \<and> avg_partners_per_hour (impact_metrics rs) =
        fdiv (int_to_float (total_partners (impact_metrics rs))) (int_to_float (int (length rs)))
    \<and> calculate_logistics_impact rs =
        Inr \<lparr>total_predicted_orders = total_orders (impact_metrics rs),
             delivery_partners_saved = py_trunc (partners_saved (impact_metrics rs)),
             estimated_cost_savings =
               rupee @ format_thousands (py_trunc (cost_savings (impact_metrics rs))),
             avg_delivery_partners = np_round1 (avg_partners_per_hour (impact_metrics rs))\<rparr>
    \<and> (0 \<le> sum_list (map predicted_orders rs) \<and> sum_list (map predicted_orders rs) < 2 ^ 40
        \<and> 0 \<le> sum_list (map delivery_partners_needed rs)
        \<and> sum_list (map delivery_partners_needed rs) < 2 ^ 40
        \<and> length rs < 2 ^ 40 \<longrightarrow>
          total_orders (impact_metrics rs) = sum_list (map predicted_orders rs)
        \<and> total_partners (impact_metrics rs) = sum_list (map delivery_partners_needed rs)
        \<and> baseline_partners (impact_metrics rs) = of_int (total_orders (impact_metrics rs)) * 3 / 4
        \<and> partners_saved (impact_metrics rs) =
            baseline_partners (impact_metrics rs) - of_int (total_partners (impact_metrics rs))
        \<and> cost_savings (impact_metrics rs) = partners_saved (impact_metrics rs) * 150
        \<and> avg_partners_per_hour (impact_metrics rs) =
            round_double (of_int (total_partners (impact_metrics rs)) / of_int (int (length rs))))
    \<and> ((\<forall>r \<in> set rs. delivery_partners_needed r = delivery_partners (predicted_orders r)
            \<and> 0 < predicted_orders r \<and> 5 dvd predicted_orders r)
        \<and> sum_list (map predicted_orders rs) = 1000 \<longrightarrow>
          total_orders (impact_metrics rs) = 1000
        \<and> baseline_partners (impact_metrics rs) = 750
        \<and> total_partners (impact_metrics rs) = 600
        \<and> partners_saved (impact_metrics rs) = 150
        \<and> cost_savings (impact_metrics rs) = 22500)"
proof -
  note s = impact_metrics_sums[of rs]
  have exact: "total_orders (impact_metrics rs) = sum_list (map predicted_orders rs)
        \<and> total_partners (impact_metrics rs) = sum_list (map delivery_partners_needed rs)
        \<and> baseline_partners (impact_metrics rs) = of_int (total_orders (impact_metrics rs)) * 3 / 4
        \<and> partners_saved (impact_metrics rs) =
            baseline_partners (impact_metrics rs) - of_int (total_partners (impact_metrics rs))
        \<and> cost_savings (impact_metrics rs) = partners_saved (impact_metrics rs) * 150"
    if "0 \<le> sum_list (map predicted_orders rs)" "sum_list (map predicted_orders rs) < 2 ^ 40"
       "0 \<le> sum_list (map delivery_partners_needed rs)"
       "sum_list (map delivery_partners_needed rs) < 2 ^ 40"
    using impact_metrics_exact[OF that] by simp
  have avg: "avg_partners_per_hour (impact_metrics rs) =
            round_double (of_int (total_partners (impact_metrics rs)) / of_int (int (length rs)))"
    if "0 \<le> sum_list (map predicted_orders rs)" "sum_list (map predicted_orders rs) < 2 ^ 40"
       "0 \<le> sum_list (map delivery_partners_needed rs)"
       "sum_list (map delivery_partners_needed rs) < 2 ^ 40" "length rs < 2 ^ 40"
    using impact_metrics_avg_exact[of rs] impact_metrics_exact(2)[OF that(1,2,3,4)] that by simp
  have scen: "total_orders (impact_metrics rs) = 1000
        \<and> baseline_partners (impact_metrics rs) = 750
        \<and> total_partners (impact_metrics rs) = 600
        \<and> partners_saved (impact_metrics rs) = 150
        \<and> cost_savings (impact_metrics rs) = 22500"
    if all: "\<forall>r \<in> set rs. delivery_partners_needed r = delivery_partners (predicted_orders r)
            \<and> 0 < predicted_orders r \<and> 5 dvd predicted_orders r"
      and total: "sum_list (map predicted_orders rs) = 1000"
  proof -
    have "5 * sum_list (map delivery_partners_needed rs) = 3 * 1000"
      using multiples_of_five_partners[OF all] total by simp
    then have p: "sum_list (map delivery_partners_needed rs) = 600" by simp
    from exact total p show ?thesis by simp
  qed
  from s calculate_logistics_impact_nonempty[OF ne] exact avg scen show ?thesis
    by (intro conjI impI) blast+
qed

lemma five_hundreds_forecast:
  "get_demand_forecast (echo_model [Fin 500, Fin 500]) 0 2 = Inr five_hundreds"
  by code_simp

lemma five_hundreds_scenario:
  "list_all (\<lambda>r. delivery_partners_needed r = delivery_partners (predicted_orders r)
            \<and> 0 < predicted_orders r \<and> 5 dvd predicted_orders r) five_hundreds"
  "sum_list (map predicted_orders five_hundreds) = 1000"
  "list_all (\<lambda>r. int64_range (predicted_orders r) \<and> int64_range (delivery_partners_needed r))
     five_hundreds"
  by code_simp+

lemma five_hundreds_bounds:
  "sum_list (map delivery_partners_needed five_hundreds) = 600"
  "length five_hundreds = 2"
  "round_double 300 = 300"
  by code_simp+

theorem logistics_impact_summary_witness:
  "five_hundreds \<noteq> []
   \<and> list_all (\<lambda>r. int64_range (predicted_orders r) \<and> int64_range (delivery_partners_needed r))
        five_hundreds
   \<and> list_all (\<lambda>r. delivery_partners_needed r = delivery_partners (predicted_orders r)
            \<and> 0 < predicted_orders r \<and> 5 dvd predicted_orders r) five_hundreds
   \<and> sum_list (map predicted_orders five_hundreds) = 1000
   \<and> sum_list (map delivery_partners_needed five_hundreds) = 600
   \<and> length five_hundreds = 2
   \<and> total_orders (impact_metrics five_hundreds) = 1000
   \<and> baseline_partners (impact_metrics five_hundreds) = 750
   \<and> total_partners (impact_metrics five_hundreds) = 600
   \<and> partners_saved (impact_metrics five_hundreds) = 150
   \<and> avg_partners_per_hour (impact_metrics five_hundreds) = 300"
proof -
  have ne: "five_hundreds \<noteq> []" by (simp add: five_hundreds_def)
  note h = five_hundreds_scenario
  note b = five_hundreds_bounds
  have fit: "\<forall>r \<in> set five_hundreds. int64_range (predicted_orders r)
       \<and> int64_range (delivery_partners_needed r)"
    using h(3) by (simp only: list_all_iff)
  have all: "\<forall>r \<in> set five_hundreds.
      delivery_partners_needed r = delivery_partners (predicted_orders r)
      \<and> 0 < predicted_orders r \<and> 5 dvd predicted_orders r"
    using h(1) by (simp only: list_all_iff)
  have bounds: "0 \<le> sum_list (map predicted_orders five_hundreds)
      \<and> sum_list (map predicted_orders five_hundreds) < 2 ^ 40
      \<and> 0 \<le> sum_list (map delivery_partners_needed five_hundreds)
      \<and> sum_list (map delivery_partners_needed five_hundreds) < 2 ^ 40
      \<and> length five_hundreds < 2 ^ 40"
    by (simp add: b h(2))
  from logistics_impact_summary[OF ne fit] all h(2)
  have s: "total_orders (impact_metrics five_hundreds) = 1000
        \<and> baseline_partners (impact_metrics five_hundreds) = 750
        \<and> total_partners (impact_metrics five_hundreds) = 600
        \<and> partners_saved (impact_metrics five_hundreds) = 150
        \<and> cost_savings (impact_metrics five_hundreds) = 22500"
    by blast
  from logistics_impact_summary[OF ne fit] bounds
  have "avg_partners_per_hour (impact_metrics five_hundreds) =
      round_double (of_int (total_partners (impact_metrics five_hundreds))
        / of_int (int (length five_hundreds)))"
    by blast
  then have "avg_partners_per_hour (impact_metrics five_hundreds) = 300"
    using s by (simp add: b)
  with s show ?thesis using ne h b by simp
qed

text \<open>
  C2, as stated, fails: two hours with 501 and 499 predicted orders total 1000 orders, but
  the hours staff 300 and 299 partners, 599 and not 600, and 151 partners are saved.
\<close>

theorem uneven_hours_counterexample:
  "map_sum id impact_metrics (get_demand_forecast (echo_model [Fin 501, Fin 499]) 0 2) =
     Inr \<lparr>total_orders = 1000, total_partners = 599, avg_partners_per_hour = 599 / 2,
          baseline_partners = 750, partners_saved = 151, cost_savings = 22650\<rparr>"
  by code_simp

text \<open>
  C10. For a forecast that is not empty (and has fewer than \<open>2 ^ 40\<close> hours) in which every
  hour predicts no order, each hour staffs the one partner of \<open>delivery_partners 0\<close>: the
  baseline is 0, the partners saved are minus the number of hours, and the cost savings are
  minus 150 times that number, a negative amount that the summary reports as it is.
\<close>

theorem zero_demand_negative_savings:
  assumes ne: "rs \<noteq> []"
    and zero: "\<forall>r \<in> set rs. predicted_orders r = 0
       \<and> delivery_partners_needed r = delivery_partners (predicted_orders r)"
    and len: "length rs < 2 ^ 40"
  shows "baseline_partners (impact_metrics rs) = 0
    \<and> total_partners (impact_metrics rs) = int (length rs)
    \<and> partners_saved (impact_metrics rs) = - of_int (int (length rs))
    \<and> cost_savings (impact_metrics rs) = - 150 * of_int (int (length rs))
    \<and> cost_savings (impact_metrics rs) < 0
    \<and> calculate_logistics_impact rs =
        Inr \<lparr>total_predicted_orders = 0,
             delivery_partners_saved = - int (length rs),
             estimated_cost_savings = rupee @ format_thousands (- 150 * int (length rs)),
             avg_delivery_partners = 1\<rparr>"
proof -
  define L where "L = int (length rs)"
  have L: "0 < L" "L < 2 ^ 40"
    using ne len by (simp_all add: L_def flip: of_nat_less_iff)
  have st: "sum_list (map predicted_orders rs) = 0"
    using sum_list_const[of rs predicted_orders 0] zero by simp
  have "\<forall>r \<in> set rs. delivery_partners_needed r = 1"
    using zero by (simp add: delivery_partners_zero)
  from sum_list_const[OF this]
  have sp: "sum_list (map delivery_partners_needed rs) = L"
    by (simp add: L_def)
  note e = impact_metrics_exact[of rs, unfolded st sp]
  have t: "total_orders (impact_metrics rs) = 0"
    and p: "total_partners (impact_metrics rs) = L"
    and b: "baseline_partners (impact_metrics rs) = 0"
    and s: "partners_saved (impact_metrics rs) = - of_int L"
    and c: "cost_savings (impact_metrics rs) = - 150 * of_int L"
    using e L by simp_all
  have "avg_partners_per_hour (impact_metrics rs) = round_double (of_int L / of_int L)"
    using impact_metrics_avg_exact[of rs] p L len by (simp add: L_def)
  then have a: "avg_partners_per_hour (impact_metrics rs) = 1"
    using L(1) by (simp add: round_double_one)
  have neg: "cost_savings (impact_metrics rs) < 0" using c L(1) by simp
  have "py_trunc (- rat_of_int L) = - L" "py_trunc (- 150 * rat_of_int L) = - 150 * L"
    using py_trunc_of_int[of "- L"] py_trunc_of_int[of "- 150 * L"] by simp_all
  then have "calculate_logistics_impact rs =
        Inr \<lparr>total_predicted_orders = 0,
             delivery_partners_saved = - L,
             estimated_cost_savings = rupee @ format_thousands (- 150 * L),
             avg_delivery_partners = 1\<rparr>"
    by (simp only: calculate_logistics_impact_nonempty[OF ne] t s c a np_round1_one)
  with b p s c neg show ?thesis by (simp add: L_def)
qed

lemma zero_hours_forecast:
  "get_demand_forecast (echo_model [Fin 0, Fin (- 3)]) 0 2 = Inr zero_hours"
  by code_simp

lemma zero_hours_all_zero:
  "list_all (\<lambda>r. predicted_orders r = 0
       \<and> delivery_partners_needed r = delivery_partners (predicted_orders r)) zero_hours"
  by code_simp

theorem zero_demand_negative_savings_witness:
  "zero_hours \<noteq> []
   \<and> list_all (\<lambda>r. predicted_orders r = 0
       \<and> delivery_partners_needed r = delivery_partners (predicted_orders r)) zero_hours
   \<and> length zero_hours < 2 ^ 40
   \<and> partners_saved (impact_metrics zero_hours) = - 2
   \<and> cost_savings (impact_metrics zero_hours) = - 300
   \<and> calculate_logistics_impact zero_hours =
        Inr \<lparr>total_predicted_orders = 0, delivery_partners_saved = - 2,
             estimated_cost_savings = rupee @ ''-300'', avg_delivery_partners = 1\<rparr>"
proof -
  have ne: "zero_hours \<noteq> []" and len: "length zero_hours < 2 ^ 40" and l2: "length zero_hours = 2"
    by (simp_all add: zero_hours_def)
  have all: "\<forall>r \<in> set zero_hours. predicted_orders r = 0
       \<and> delivery_partners_needed r = delivery_partners (predicted_orders r)"
    using zero_hours_all_zero by (simp only: list_all_iff)
  have f: "format_thousands (- 300) = ''-300''" by code_simp
  from zero_demand_negative_savings[OF ne all len]
  show ?thesis using ne len zero_hours_all_zero by (simp add: l2 f)
qed

subsection \<open>Filling a column\<close>

lemma length_bfill [simp]: "length (bfill xs) = length xs"
  by (induction xs rule: bfill.induct) (auto split: list.splits)

lemma length_ffill_from [simp]: "length (ffill_from p xs) = length xs"
  by (induction p xs rule: ffill_from.induct) auto

lemma length_fillna [simp]: "length (fillna xs) = length xs"
  by (simp add: fillna_def ffill_def)

lemma bfill_all_None: "set xs \<subseteq> {None} \<Longrightarrow> bfill xs = xs"
  by (induction xs rule: bfill.induct) (auto split: list.splits)

lemma ffill_from_all_None: "set xs \<subseteq> {None} \<Longrightarrow> ffill_from None xs = xs"
  by (induction xs) auto

lemma bfill_head_Some:
  "Some v \<in> set xs \<Longrightarrow> \<exists>w ys. bfill xs = Some w # ys"
proof (induction xs rule: bfill.induct)
  case 1
  then show ?case by simp
next
  case (2 v' xs)
  then show ?case by simp
next
  case (3 xs)
  then obtain w ys where "bfill xs = Some w # ys" by auto
  then show ?case by simp
qed

lemma ffill_from_Some_no_None: "None \<notin> set (ffill_from (Some p) xs)"
  by (induction "Some p" xs arbitrary: p rule: ffill_from.induct) auto

lemma fillna_defined_iff:
  "None \<notin> set (fillna xs) \<longleftrightarrow> xs = [] \<or> (\<exists>v. Some v \<in> set xs)"
proof (cases "\<exists>v. Some v \<in> set xs")
  case True
  then obtain v where "Some v \<in> set xs" ..
  from bfill_head_Some[OF this] obtain w ys where "bfill xs = Some w # ys" by auto
  then have "fillna xs = Some w # ffill_from (Some w) ys" by (simp add: fillna_def ffill_def)
  then show ?thesis using True ffill_from_Some_no_None[of w ys] by auto
next
  case False
  then have n: "set xs \<subseteq> {None}" by (auto simp: subset_iff) (metis option.exhaust)
  then have "fillna xs = xs" by (simp add: fillna_def ffill_def bfill_all_None ffill_from_all_None)
  then show ?thesis using False n by (cases xs) auto
qed

lemma bfill_keeps: "i < length xs \<Longrightarrow> xs ! i = Some v \<Longrightarrow> bfill xs ! i = Some v"
proof (induction xs arbitrary: i rule: bfill.induct)
  case 1
  then show ?case by simp
next
  case (2 v' xs)
  then show ?case by (cases i) auto
next
  case (3 xs)
  then show ?case by (cases i) (auto split: list.splits)
qed

lemma ffill_from_keeps: "i < length xs \<Longrightarrow> xs ! i = Some v \<Longrightarrow> ffill_from p xs ! i = Some v"
proof (induction p xs arbitrary: i rule: ffill_from.induct)
  case (1 prev)
  then show ?case by simp
next
  case (2 prev v' xs)
  then show ?case by (cases i) auto
next
  case (3 prev xs)
  then show ?case by (cases i) auto
qed

lemma fillna_keeps: "i < length xs \<Longrightarrow> xs ! i = Some v \<Longrightarrow> fillna xs ! i = Some v"
  by (simp add: fillna_def ffill_def bfill_keeps ffill_from_keeps)

lemma fillna_all_Some: "None \<notin> set xs \<Longrightarrow> fillna xs = xs"
proof (rule nth_equalityI)
  show "length (fillna xs) = length xs" by simp
next
  fix i assume n: "None \<notin> set xs" and "i < length (fillna xs)"
  then have i: "i < length xs" by simp
  then have "xs ! i \<in> set xs" by simp
  with n obtain v where "xs ! i = Some v" by (cases "xs ! i") auto
  then show "fillna xs ! i = xs ! i" using fillna_keeps[OF i] by simp
qed

subsection \<open>The running mean\<close>

lemma nobs_add_mean: "nobs (add_mean v st) = nobs st + 1"
  by (simp add: add_mean_def Let_def)

lemma nobs_remove_mean: "nobs (remove_mean v st) = nobs st - 1"
  by (simp add: remove_mean_def Let_def)

lemma nobs_roll_mean: "nobs (roll_mean vals i) = int (min (Suc i) 3)"
  by (induction i) (auto simp: nobs_add_mean nobs_remove_mean Let_def)

lemma calc_mean_defined: "calc_mean (roll_mean vals i) \<noteq> None"
  by (simp add: calc_mean_def Let_def nobs_roll_mean)

lemma add_mean_exact:
  assumes "compensation_add st = 0" "sum_x st = of_int W" "\<bar>c\<bar> < 2 ^ 53" "\<bar>W + c\<bar> < 2 ^ 53"
  shows "add_mean (of_int c) st =
     st\<lparr>nobs := nobs st + 1, sum_x := of_int (W + c), compensation_add := 0,
        neg_ct := (if c < 0 then neg_ct st + 1 else neg_ct st),
        num_consecutive_same_value :=
          (if of_int c = prev_value st then num_consecutive_same_value st + 1 else 1),
        prev_value := of_int c\<rparr>"
proof -
  have y: "fsub (of_int c) 0 = of_int c" using fsub_of_int[of c 0] assms(3) by simp
  have t: "fadd (of_int W) (of_int c) = of_int (W + c)" using assms(4) by (rule fadd_of_int)
  have d: "fsub (of_int (W + c)) (of_int W) = of_int c"
    using fsub_of_int[of "W + c" W] assms(3) by simp
  have z: "fsub (of_int c) (of_int c) = 0" using fsub_of_int[of c c] by simp
  show ?thesis unfolding add_mean_def Let_def assms(1,2) y t d z by simp
qed

lemma remove_mean_exact:
  assumes "compensation_remove st = 0" "sum_x st = of_int W" "\<bar>c\<bar> < 2 ^ 53" "\<bar>W - c\<bar> < 2 ^ 53"
  shows "remove_mean (of_int c) st =
     st\<lparr>nobs := nobs st - 1, sum_x := of_int (W - c), compensation_remove := 0,
        neg_ct := (if c < 0 then neg_ct st - 1 else neg_ct st)\<rparr>"
proof -
  have n: "- rat_of_int c = of_int (- c)" by simp
  have y: "fsub (of_int (- c)) 0 = of_int (- c)" using fsub_of_int[of "- c" 0] assms(3) by simp
  have t: "fadd (of_int W) (of_int (- c)) = of_int (W - c)"
    using fadd_of_int[of W "- c"] assms(4) by simp
  have d: "fsub (of_int (W - c)) (of_int W) = of_int (- c)"
    using fsub_of_int[of "W - c" W] assms(3) by simp
  have z: "fsub (of_int (- c)) (of_int (- c)) = 0" using fsub_of_int[of "- c" "- c"] by simp
  show ?thesis unfolding remove_mean_def Let_def assms(1,2) n y t d z by simp
qed

lemma window_explicit:
  assumes "i < length cs"
  shows "drop (i - 2) (take (Suc i) cs) =
     (if i = 0 then [cs ! 0] else if i = 1 then [cs ! 0, cs ! 1]
      else [cs ! (i - 2), cs ! (i - 1), cs ! i])"
proof -
  define xs where "xs = take (Suc i) cs"
  have l: "length xs = Suc i" using assms by (simp add: xs_def)
  have n: "xs ! j = cs ! j" if "j \<le> i" for j using that by (simp add: xs_def)
  have d3: "drop i xs = [cs ! i]"
    using Cons_nth_drop_Suc[of i xs] l n[of i] by simp
  have d2: "drop (i - 1) xs = [cs ! (i - 1), cs ! i]" if "1 \<le> i"
    using Cons_nth_drop_Suc[of "i - 1" xs] l n[of "i - 1"] d3 that by simp
  have d1: "drop (i - 2) xs = [cs ! (i - 2), cs ! (i - 1), cs ! i]" if "2 \<le> i"
  proof -
    have "Suc (i - 2) = i - 1" using that by simp
    then show ?thesis
      using Cons_nth_drop_Suc[of "i - 2" xs] l n[of "i - 2"] d2 that by simp
  qed
  consider "i = 0" | "i = 1" | "2 \<le> i" by linarith
  then show ?thesis
  proof cases
    case 1
    then show ?thesis using d3 by (simp add: xs_def)
  next
    case 2
    then show ?thesis using d2 by (simp add: xs_def)
  next
    case 3
    then show ?thesis using d1 by (simp add: xs_def)
  qed
qed

lemma roll_mean_exact:
  assumes b: "\<forall>c \<in> set cs. \<bar>c\<bar> < 2 ^ 51" and i: "i < length cs"
  shows "(let st = roll_mean (map of_int cs) i; w = drop (i - 2) (take (Suc i) cs) in
     sum_x st = of_int (sum_list w)
     \<and> neg_ct st = int (length (filter (\<lambda>c. c < 0) w))
     \<and> compensation_add st = 0
     \<and> compensation_remove st = 0
     \<and> prev_value st = of_int (cs ! i)
     \<and> (\<forall>k \<le> i. int k < num_consecutive_same_value st \<longrightarrow> cs ! (i - k) = cs ! i))"
  using i
proof (induction i)
  case 0
  define init :: mean_state where
    "init = \<lparr>nobs = 0, sum_x = 0, neg_ct = 0, compensation_add = 0, compensation_remove = 0,
        num_consecutive_same_value = 0, prev_value = of_int (cs ! 0)\<rparr>"
  have c0: "\<bar>cs ! 0\<bar> < 2 ^ 51" using b 0 by simp
  have "roll_mean (map of_int cs) 0 = add_mean (of_int (cs ! 0)) init"
    using 0 by (simp add: init_def)
  also have "\<dots> = init\<lparr>nobs := nobs init + 1, sum_x := of_int (0 + cs ! 0), compensation_add := 0,
        neg_ct := (if cs ! 0 < 0 then neg_ct init + 1 else neg_ct init),
        num_consecutive_same_value :=
          (if rat_of_int (cs ! 0) = prev_value init then num_consecutive_same_value init + 1 else 1),
        prev_value := of_int (cs ! 0)\<rparr>"
    using c0 by (intro add_mean_exact) (simp_all add: init_def)
  finally have "roll_mean (map of_int cs) 0 =
     \<lparr>nobs = 1, sum_x = of_int (cs ! 0), neg_ct = (if cs ! 0 < 0 then 1 else 0),
      compensation_add = 0, compensation_remove = 0, num_consecutive_same_value = 1,
      prev_value = of_int (cs ! 0)\<rparr>"
    by (simp add: init_def)
  moreover have "take (Suc 0) cs = [cs ! 0]" using 0 by (simp add: take_Suc_conv_app_nth)
  ultimately show ?case by (simp add: Let_def)
next
  case (Suc i)
  have i: "i < length cs" and si: "Suc i < length cs" using Suc.prems by simp_all
  define st where "st = roll_mean (map of_int cs) i"
  define w where "w = drop (i - 2) (take (Suc i) cs)"
  define c where "c = cs ! Suc i"
  have bd: "\<bar>cs ! j\<bar> < 2 ^ 51" if "j < length cs" for j using b that by simp
  have b2: "\<bar>cs ! (i - 2)\<bar> < 2 ^ 51" and b1: "\<bar>cs ! (i - 1)\<bar> < 2 ^ 51"
    using bd[of "i - 2"] bd[of "i - 1"] i by simp_all
  note bi = b2 b1 bd[OF i] bd[OF si]
  from Suc.IH[OF i]
  have ih: "sum_x st = of_int (sum_list w)"
    "neg_ct st = int (length (filter (\<lambda>c. c < 0) w))"
    "compensation_add st = 0" "compensation_remove st = 0"
    "prev_value st = of_int (cs ! i)"
    "\<forall>k \<le> i. int k < num_consecutive_same_value st \<longrightarrow> cs ! (i - k) = cs ! i"
    by (simp_all add: Let_def st_def w_def)
  have w: "w = (if i = 0 then [cs ! 0] else if i = 1 then [cs ! 0, cs ! 1]
      else [cs ! (i - 2), cs ! (i - 1), cs ! i])"
    unfolding w_def using i by (rule window_explicit)
  define st' where "st' = (if 3 \<le> Suc i then remove_mean (of_int (cs ! (i - 2))) st else st)"
  define w' where "w' = (if 3 \<le> Suc i then tl w else w)"
  have w': "w' = (if i = 0 then [cs ! 0] else [cs ! (i - 1), cs ! i])"
  proof -
    consider "i = 0" | "i = 1" | "2 \<le> i" by linarith
    then show ?thesis by cases (simp_all add: w'_def w)
  qed
  have rm: "st' = st\<lparr>nobs := nobs st - 1, sum_x := of_int (sum_list w - cs ! (i - 2)),
        compensation_remove := 0,
        neg_ct := (if cs ! (i - 2) < 0 then neg_ct st - 1 else neg_ct st)\<rparr>" if "3 \<le> Suc i"
  proof -
    have "\<bar>sum_list w - cs ! (i - 2)\<bar> < 2 ^ 53" using that bi i by (simp add: w)
    moreover have "\<bar>cs ! (i - 2)\<bar> < 2 ^ 53" using bi i by simp
    ultimately show ?thesis
      unfolding st'_def using that ih(1,4) by (simp add: remove_mean_exact)
  qed
  have s': "sum_x st' = of_int (sum_list w')"
    "neg_ct st' = int (length (filter (\<lambda>c. c < 0) w'))"
    "compensation_add st' = 0"
    "prev_value st' = of_int (cs ! i)"
    "num_consecutive_same_value st' = num_consecutive_same_value st"
  proof -
    show "sum_x st' = of_int (sum_list w')"
      using rm ih(1) by (cases "3 \<le> Suc i") (auto simp: st'_def w'_def w)
    show "neg_ct st' = int (length (filter (\<lambda>c. c < 0) w'))"
      using rm ih(2) by (cases "3 \<le> Suc i") (auto simp: st'_def w'_def w)
    show "compensation_add st' = 0"
      using rm ih(3) by (cases "3 \<le> Suc i") (auto simp: st'_def)
    show "prev_value st' = of_int (cs ! i)"
      using rm ih(5) by (cases "3 \<le> Suc i") (auto simp: st'_def)
    show "num_consecutive_same_value st' = num_consecutive_same_value st"
      using rm by (cases "3 \<le> Suc i") (auto simp: st'_def)
  qed
  have "Suc i - 3 = i - 2" by simp
  then have "roll_mean (map of_int cs) (Suc i) = add_mean (of_int c) st'"
    using si i by (simp add: Let_def st_def st'_def c_def)
  also have "\<dots> = st'\<lparr>nobs := nobs st' + 1, sum_x := of_int (sum_list w' + c), compensation_add := 0,
        neg_ct := (if c < 0 then neg_ct st' + 1 else neg_ct st'),
        num_consecutive_same_value :=
          (if rat_of_int c = prev_value st' then num_consecutive_same_value st' + 1 else 1),
        prev_value := of_int c\<rparr>"
  proof (intro add_mean_exact s')
    show "\<bar>c\<bar> < 2 ^ 53" using bi by (simp add: c_def)
    show "\<bar>sum_list w' + c\<bar> < 2 ^ 53" using bi i by (cases "i = 0") (auto simp: w' c_def)
  qed
  finally have new: "roll_mean (map of_int cs) (Suc i) =
     st'\<lparr>nobs := nobs st' + 1, sum_x := of_int (sum_list w' + c), compensation_add := 0,
        neg_ct := (if c < 0 then neg_ct st' + 1 else neg_ct st'),
        num_consecutive_same_value :=
          (if rat_of_int c = prev_value st' then num_consecutive_same_value st' + 1 else 1),
        prev_value := of_int c\<rparr>" .
  have win: "drop (Suc i - 2) (take (Suc (Suc i)) cs) = w' @ [c]"
    using window_explicit[OF si] by (auto simp: w' c_def numeral_2_eq_2)
  have cr: "compensation_remove st' = 0"
    using rm ih(4) by (cases "3 \<le> Suc i") (auto simp: st'_def)
  have run: "cs ! (Suc i - k) = cs ! Suc i"
    if k: "k \<le> Suc i"
      and r: "int k < (if rat_of_int c = prev_value st' then num_consecutive_same_value st' + 1 else 1)"
    for k
  proof (cases k)
    case 0
    then show ?thesis by simp
  next
    case (Suc k')
    then have eq: "rat_of_int c = prev_value st'" and r': "int k' < num_consecutive_same_value st"
      using r s'(5) by (auto split: if_splits)
    from eq have "c = cs ! i" by (simp add: s'(4))
    moreover have "cs ! (i - k') = cs ! i" using ih(6) r' k Suc by simp
    ultimately show ?thesis by (simp add: Suc c_def)
  qed
  show ?case
    unfolding Let_def win new using s' cr run by (simp add: c_def)
qed

lemma calc_mean_exact:
  assumes b: "\<forall>c \<in> set cs. \<bar>c\<bar> < 2 ^ 51" and i: "i < length cs"
  shows "calc_mean (roll_mean (map of_int cs) i) =
     Some (fdiv (of_int (sum_list (drop (i - 2) (take (Suc i) cs))))
             (of_int (int (length (drop (i - 2) (take (Suc i) cs))))))"
proof -
  define st where "st = roll_mean (map of_int cs) i"
  define w where "w = drop (i - 2) (take (Suc i) cs)"
  define res where "res = fdiv (of_int (sum_list w)) (of_int (int (length w)))"
  note e = roll_mean_exact[OF b i, unfolded Let_def, folded st_def w_def]
  have sx: "sum_x st = of_int (sum_list w)"
    and ng: "neg_ct st = int (length (filter (\<lambda>c. c < 0) w))"
    and pv: "prev_value st = of_int (cs ! i)"
    and run: "\<And>k. k \<le> i \<Longrightarrow> int k < num_consecutive_same_value st \<Longrightarrow> cs ! (i - k) = cs ! i"
    using e by blast+
  have w: "w = (if i = 0 then [cs ! 0] else if i = 1 then [cs ! 0, cs ! 1]
      else [cs ! (i - 2), cs ! (i - 1), cs ! i])"
    unfolding w_def using i by (rule window_explicit)
  have lw: "1 \<le> length w" "length w \<le> 3" by (simp_all add: w)
  have n: "nobs st = int (length w)"
    unfolding st_def nobs_roll_mean by (simp add: w)
  have nf: "int_to_float (int (length w)) = of_int (int (length w))"
    using lw by (intro int_to_float_exact) simp
  have ci: "\<bar>cs ! i\<bar> < 2 ^ 53" using b i by (simp add: order_less_trans[of _ "2 ^ 51"])
  have A: "prev_value st = res" if "nobs st \<le> num_consecutive_same_value st"
  proof -
    have r: "cs ! (i - k) = cs ! i" if "k \<le> i" "k < length w" for k
      using run[of k] that \<open>nobs st \<le> num_consecutive_same_value st\<close> n by simp
    have "sum_list w = int (length w) * cs ! i"
    proof -
      consider "i = 0" | "i = 1" | "2 \<le> i" by linarith
      then show ?thesis
      proof cases
        case 1
        then show ?thesis by (simp add: w)
      next
        case 2
        then show ?thesis using r[of 1] by (simp add: w)
      next
        case 3
        then show ?thesis using r[of 1] r[of 2] by (simp add: w)
      qed
    qed
    moreover have "w \<noteq> []" using lw by auto
    ultimately have "rat_of_int (sum_list w) / of_int (int (length w)) = of_int (cs ! i)"
      by simp
    then have "res = round_double (of_int (cs ! i))" by (simp only: res_def fdiv_def)
    then show ?thesis using ci by (simp add: pv round_double_of_int)
  qed
  have B: "\<not> res < 0" if "neg_ct st = 0"
  proof -
    have "\<forall>x \<in> set w. 0 \<le> x" using that ng by (auto simp: filter_empty_conv)
    then have "0 \<le> sum_list w" by (intro sum_list_nonneg) simp
    then have "0 \<le> rat_of_int (sum_list w) / of_int (int (length w))" by simp
    then have "0 \<le> res" unfolding res_def fdiv_def by (rule round_double_nonneg)
    then show ?thesis by simp
  qed
  have C: "\<not> 0 < res" if "neg_ct st = nobs st"
  proof -
    have "length (filter (\<lambda>c. c < 0) w) = length w" using that ng n by simp
    then have "filter (\<lambda>c. c < 0) w = w"
      by (metis length_filter_less less_irrefl filter_True)
    then have "\<forall>x \<in> set w. x \<le> 0" by (metis filter_id_conv less_imp_le)
    then have "sum_list w \<le> 0" by (intro sum_list_nonpos) simp
    then have "rat_of_int (sum_list w) / of_int (int (length w)) \<le> 0"
      by (simp add: divide_nonpos_nonneg)
    then have "res \<le> 0" unfolding res_def fdiv_def by (rule round_double_nonpos)
    then show ?thesis by simp
  qed
  have "calc_mean st = Some res"
    unfolding calc_mean_def Let_def sx n nf res_def[symmetric]
    using lw A B C n by auto
  then show ?thesis by (simp only: st_def w_def res_def)
qed

lemma rolling_mean3_exact:
  assumes b: "\<forall>r \<in> set s. \<bar>order_count r\<bar> < 2 ^ 51" and ne: "s \<noteq> []"
  shows "rolling_mean3 s =
     Some (fdiv (of_int (sum_list (drop (length s - 3) (map order_count s))))
             (of_int (int (length (drop (length s - 3) (map order_count s))))))"
proof -
  define cs where "cs = map order_count s"
  define i where "i = length s - 1"
  have i: "i < length cs" and l: "Suc i = length cs" using ne by (simp_all add: i_def cs_def)
  have bc: "\<forall>c \<in> set cs. \<bar>c\<bar> < 2 ^ 51" using b by (simp add: cs_def)
  have "map (\<lambda>r. int_to_float (order_count r)) s = map of_int cs"
    using b by (simp add: cs_def int_to_float_exact order_less_trans[of _ "2 ^ 51"])
  then have "rolling_mean3 s = calc_mean (roll_mean (map of_int cs) i)"
    by (simp add: rolling_mean3_def i_def)
  moreover have "i - 2 = length s - 3" by (simp add: i_def)
  moreover have "take (Suc i) cs = cs" by (simp add: l)
  ultimately show ?thesis using calc_mean_exact[OF bc i] by (simp add: cs_def)
qed

lemma rolling_mean3_defined: "rolling_mean3 s \<noteq> None" "None \<noteq> rolling_mean3 s"
  using calc_mean_defined[of "map (\<lambda>r. int_to_float (order_count r)) s" "length s - 1"]
  by (auto simp: rolling_mean3_def)

subsection \<open>The series of a restaurant\<close>

lemma length_grouped_scan [simp]: "length (grouped_scan key f seen rs) = length rs"
  by (induction rs arbitrary: seen) auto

lemma length_features_prefill [simp]: "length (features_prefill df) = length df"
  by (simp add: features_prefill_def)

lemma grouped_scan_filter:
  assumes out: "\<And>s. s \<noteq> [] \<Longrightarrow> key' (f s) = key (last s)"
  shows "filter (\<lambda>r. key' r = K) (grouped_scan key f seen rs) =
     map (\<lambda>j. f (filter (\<lambda>r. key r = K) seen @ take (Suc j) (filter (\<lambda>r. key r = K) rs)))
       [0..<length (filter (\<lambda>r. key r = K) rs)]"
proof (induction rs arbitrary: seen)
  case Nil
  then show ?case by simp
next
  case (Cons r rs)
  have k: "key' (f (filter (\<lambda>r'. key r' = key r) seen @ [r])) = key r"
    using out[of "filter (\<lambda>r'. key r' = key r) seen @ [r]"] by simp
  show ?case
  proof (cases "key r = K")
    case True
    then show ?thesis
      using k by (simp add: Cons.IH map_upt_Suc del: upt_Suc)
  next
    case False
    then show ?thesis using k by (simp add: Cons.IH)
  qed
qed

lemma add_features_demand:
  "order_date (add_features s) = order_date (last s)"
  "restaurant_id (add_features s) = restaurant_id (last s)"
  "order_count (add_features s) = order_count (last s)"
  "orders_last_hour (add_features s) = shift_count 1 s"
  "orders_last_day_same_hour (add_features s) = shift_count 24 s"
  "orders_3h_mean (add_features s) = rolling_mean3 s"
  by (simp_all add: add_features_def demand_row.extend_def)

lemma shift_count_take:
  assumes "i < length G"
  shows "shift_count k (take (Suc i) G) =
     (if i < k then None else Some (int_to_float (order_count (G ! (i - k)))))"
proof -
  have l: "length (take (Suc i) G) - 1 = i" using assms by simp
  have "take (Suc i) G ! (i - k) = G ! (i - k)" by simp
  then show ?thesis unfolding shift_count_def Let_def l by (simp add: not_less)
qed

lemma restaurant_series:
  fixes df R
  defines "G \<equiv> filter (\<lambda>r. restaurant_id r = R) (sort_key (\<lambda>r. (restaurant_id r, order_date r)) df)"
  shows "filter (\<lambda>r. restaurant_id r = R) (features_prefill df) =
     map (\<lambda>j. add_features (take (Suc j) G)) [0..<length G]"
  unfolding features_prefill_def G_def
  by (subst grouped_scan_filter[where key' = restaurant_id]) (simp_all add: add_features_demand)

lemma insort_key_same_restaurant:
  assumes "\<forall>y \<in> set ys. restaurant_id y = restaurant_id x"
  shows "insort_key (\<lambda>r. (restaurant_id r, order_date r)) x ys = insort_key order_date x ys"
  using assms by (induction ys) (auto simp: less_eq_prod_def)

lemma sort_key_same_restaurant:
  assumes "\<forall>y \<in> set xs. restaurant_id y = R"
  shows "sort_key (\<lambda>r. (restaurant_id r, order_date r)) xs = sort_key order_date xs"
  using assms
proof (induction xs)
  case Nil
  then show ?case by simp
next
  case (Cons x xs)
  then have "\<forall>y \<in> set (sort_key order_date xs). restaurant_id y = restaurant_id x" by simp
  then show ?case using Cons by (simp add: insort_key_same_restaurant)
qed

lemma series_sorted_by_time:
  "filter (\<lambda>r. restaurant_id r = R) (sort_key (\<lambda>r. (restaurant_id r, order_date r)) df) =
     sort_key order_date (filter (\<lambda>r. restaurant_id r = R) df)"
  by (simp add: filter_sort sort_key_same_restaurant[of _ R])

lemma truncate_add_features: "s \<noteq> [] \<Longrightarrow> demand_row.truncate (add_features s) = last s"
  by (simp add: add_features_def demand_row.extend_def demand_row.truncate_def)

lemma truncate_add_features_take:
  "i < length G \<Longrightarrow> demand_row.truncate (add_features (take (Suc i) G)) = G ! i"
  by (simp add: take_Suc_conv_app_nth truncate_add_features)

lemma restaurant_series_nth:
  fixes df R
  defines "G \<equiv> sort_key order_date (filter (\<lambda>r. restaurant_id r = R) df)"
  defines "S \<equiv> filter (\<lambda>r. restaurant_id r = R) (features_prefill df)"
  shows "length S = length G"
    and "i < length G \<Longrightarrow> S ! i = add_features (take (Suc i) G)"
    and "map demand_row.truncate S = G"
proof -
  have S: "S = map (\<lambda>j. add_features (take (Suc j) G)) [0..<length G]"
    unfolding S_def G_def by (simp only: restaurant_series series_sorted_by_time)
  show "length S = length G" by (simp add: S)
  show "i < length G \<Longrightarrow> S ! i = add_features (take (Suc i) G)" by (simp add: S)
  show "map demand_row.truncate S = G"
    by (rule nth_equalityI) (simp_all add: S truncate_add_features_take)
qed

subsection \<open>Lag features\<close>

text \<open>
  C4. Take a table whose order counts fit in 64 bits, and the observations of one
  restaurant, sorted by time. Before the fill, the feature rows of that restaurant are
  these observations in that order; \<open>orders_last_hour\<close> at step \<open>i\<close> is the order count of
  the restaurant at step \<open>i - 1\<close>, as a float, and undefined at step 0;
  \<open>orders_last_day_same_hour\<close> is the order count at step \<open>i - 24\<close>, as a float, and undefined
  before step 24. A count of absolute value at most \<open>2 ^ 53\<close> is its own float, and the
  feature equals it. The values are those of the same restaurant, whatever other rows the
  table has.
\<close>

theorem lag_features_within_restaurant:
  assumes fit: "\<forall>r \<in> set df. int64_range (order_count r)"
  shows "(let series = sort_key order_date (filter (\<lambda>r. restaurant_id r = R) df);
        rows = filter (\<lambda>r. restaurant_id r = R) (features_prefill df)
    in sorted (map order_date series)
       \<and> map demand_row.truncate rows = series
       \<and> (\<forall>i < length series.
             orders_last_hour (rows ! i) =
               (if i = 0 then None else Some (int_to_float (order_count (series ! (i - 1)))))
           \<and> orders_last_day_same_hour (rows ! i) =
               (if i < 24 then None else Some (int_to_float (order_count (series ! (i - 24)))))
           \<and> (0 < i \<and> \<bar>order_count (series ! (i - 1))\<bar> \<le> 2 ^ 53 \<longrightarrow>
                orders_last_hour (rows ! i) = Some (of_int (order_count (series ! (i - 1)))))
           \<and> (24 \<le> i \<and> \<bar>order_count (series ! (i - 24))\<bar> \<le> 2 ^ 53 \<longrightarrow>
                orders_last_day_same_hour (rows ! i) =
                  Some (of_int (order_count (series ! (i - 24)))))))"
proof -
  define G where "G = sort_key order_date (filter (\<lambda>r. restaurant_id r = R) df)"
  define S where "S = filter (\<lambda>r. restaurant_id r = R) (features_prefill df)"
  note n = restaurant_series_nth[where R = R and df = df, folded G_def S_def]
  have "sorted (map order_date G)" by (simp add: G_def)
  moreover have "orders_last_hour (S ! i) =
               (if i = 0 then None else Some (int_to_float (order_count (G ! (i - 1)))))
           \<and> orders_last_day_same_hour (S ! i) =
               (if i < 24 then None else Some (int_to_float (order_count (G ! (i - 24)))))
           \<and> (0 < i \<and> \<bar>order_count (G ! (i - 1))\<bar> \<le> 2 ^ 53 \<longrightarrow>
                orders_last_hour (S ! i) = Some (of_int (order_count (G ! (i - 1)))))
           \<and> (24 \<le> i \<and> \<bar>order_count (G ! (i - 24))\<bar> \<le> 2 ^ 53 \<longrightarrow>
                orders_last_day_same_hour (S ! i) = Some (of_int (order_count (G ! (i - 24)))))"
    if "i < length G" for i
    using that by (simp add: n(2) add_features_demand shift_count_take int_to_float_exact_le)
  ultimately show ?thesis
    unfolding Let_def G_def[symmetric] S_def[symmetric] using n(3) by blast
qed

lemma two_restaurants_series:
  "length (sort_key order_date (filter (\<lambda>r. restaurant_id r = 7) two_restaurants)) = 48"
  "map order_count (take 2 (sort_key order_date (filter (\<lambda>r. restaurant_id r = 7) two_restaurants)))
     = [10, 20]"
  "list_all (\<lambda>r. int64_range (order_count r)) two_restaurants"
  by code_simp+

lemma two_restaurants_counts:
  "order_count (sort_key order_date (filter (\<lambda>r. restaurant_id r = 7) two_restaurants) ! 0) = 10"
  by code_simp

theorem lag_features_within_restaurant_witness:
  "list_all (\<lambda>r. int64_range (order_count r)) two_restaurants
   \<and> length (sort_key order_date (filter (\<lambda>r. restaurant_id r = 7) two_restaurants)) = 48
   \<and> orders_last_hour (filter (\<lambda>r. restaurant_id r = 7) (features_prefill two_restaurants) ! 0) = None
   \<and> orders_last_hour (filter (\<lambda>r. restaurant_id r = 7) (features_prefill two_restaurants) ! 1) = Some 10
   \<and> orders_last_day_same_hour
        (filter (\<lambda>r. restaurant_id r = 7) (features_prefill two_restaurants) ! 23) = None
   \<and> orders_last_day_same_hour
        (filter (\<lambda>r. restaurant_id r = 7) (features_prefill two_restaurants) ! 24) = Some 10"
proof -
  define G where "G = sort_key order_date (filter (\<lambda>r. restaurant_id r = 7) two_restaurants)"
  define S where "S = filter (\<lambda>r. restaurant_id r = 7) (features_prefill two_restaurants)"
  have len: "length G = 48" and c0: "order_count (G ! 0) = 10"
    unfolding G_def by (rule two_restaurants_series(1), rule two_restaurants_counts)
  have fit: "\<forall>r \<in> set two_restaurants. int64_range (order_count r)"
    using two_restaurants_series(3) by (simp only: list_all_iff)
  from lag_features_within_restaurant[OF fit, of 7, unfolded Let_def, folded G_def S_def]
  have all: "\<forall>i < length G.
             orders_last_hour (S ! i) =
               (if i = 0 then None else Some (int_to_float (order_count (G ! (i - 1)))))
           \<and> orders_last_day_same_hour (S ! i) =
               (if i < 24 then None else Some (int_to_float (order_count (G ! (i - 24)))))
           \<and> (0 < i \<and> \<bar>order_count (G ! (i - 1))\<bar> \<le> 2 ^ 53 \<longrightarrow>
                orders_last_hour (S ! i) = Some (of_int (order_count (G ! (i - 1)))))
           \<and> (24 \<le> i \<and> \<bar>order_count (G ! (i - 24))\<bar> \<le> 2 ^ 53 \<longrightarrow>
                orders_last_day_same_hour (S ! i) = Some (of_int (order_count (G ! (i - 24)))))"
    by blast
  have "orders_last_hour (S ! 0) = None" using all len by simp
  moreover have "orders_last_hour (S ! 1) = Some 10"
    using all[rule_format, of 1] len c0 by (simp add: int_to_float_exact)
  moreover have "orders_last_day_same_hour (S ! 23) = None" using all[rule_format, of 23] len by simp
  moreover have "orders_last_day_same_hour (S ! 24) = Some 10"
    using all[rule_format, of 24] len c0 by (simp add: int_to_float_exact)
  ultimately show ?thesis using len two_restaurants_series(3) by (simp add: G_def S_def)
qed

subsection \<open>The fill policy\<close>

lemma create_logistics_features_columns:
  "length (create_logistics_features df) = length df"
  "map orders_last_hour (create_logistics_features df) =
     fillna (map orders_last_hour (features_prefill df))"
  "map orders_last_day_same_hour (create_logistics_features df) =
     fillna (map orders_last_day_same_hour (features_prefill df))"
  "map orders_3h_mean (create_logistics_features df) =
     fillna (map orders_3h_mean (features_prefill df))"
  "map demand_row.truncate (create_logistics_features df) = map demand_row.truncate (features_prefill df)"
  by (auto simp: create_logistics_features_def Let_def intro!: nth_equalityI simp: demand_row.truncate_def)

lemma rolling_mean_defined: "None \<notin> set (map orders_3h_mean (features_prefill df))"
proof -
  have "None \<notin> set (map orders_3h_mean (grouped_scan restaurant_id add_features seen rs))" for seen rs
    by (induction rs arbitrary: seen) (auto simp: add_features_demand rolling_mean3_defined)
  then show ?thesis by (simp add: features_prefill_def)
qed

lemma shift_column_defined_iff:
  assumes col: "\<And>s. c (add_features s) = shift_count k s"
  shows "(\<exists>v. Some v \<in> set (map c (features_prefill df))) \<longleftrightarrow>
     (\<exists>R. k < length (filter (\<lambda>r. restaurant_id r = R) df))"
proof
  assume "\<exists>v. Some v \<in> set (map c (features_prefill df))"
  then obtain v x where x': "x \<in> set (features_prefill df)" "Some v = c x" by auto
  then have x: "x \<in> set (features_prefill df)" "c x = Some v" by simp_all
  define R where "R = restaurant_id x"
  define G where "G = sort_key order_date (filter (\<lambda>r. restaurant_id r = R) df)"
  define S where "S = filter (\<lambda>r. restaurant_id r = R) (features_prefill df)"
  note n = restaurant_series_nth[where R = R and df = df, folded G_def S_def]
  have "x \<in> set S" using x(1) by (simp add: S_def R_def)
  then obtain i where i: "i < length S" "S ! i = x" by (auto simp: in_set_conv_nth)
  then have "x = add_features (take (Suc i) G)" using n(1,2) by simp
  then have "c x = shift_count k (take (Suc i) G)" by (simp only: col)
  then have "\<not> i < k" using x(2) i(1) n(1) by (auto simp: shift_count_take)
  then have "k < length G" using i(1) n(1) by simp
  then show "\<exists>R. k < length (filter (\<lambda>r. restaurant_id r = R) df)" by (auto simp: G_def)
next
  assume "\<exists>R. k < length (filter (\<lambda>r. restaurant_id r = R) df)"
  then obtain R where R: "k < length (filter (\<lambda>r. restaurant_id r = R) df)" ..
  define G where "G = sort_key order_date (filter (\<lambda>r. restaurant_id r = R) df)"
  define S where "S = filter (\<lambda>r. restaurant_id r = R) (features_prefill df)"
  note n = restaurant_series_nth[where R = R and df = df, folded G_def S_def]
  have k: "k < length G" using R by (simp add: G_def)
  then have "c (S ! k) = Some (int_to_float (order_count (G ! 0)))"
    using n(2) col by (simp add: shift_count_take)
  moreover have "S ! k \<in> set S" using k n(1) by simp
  then have "S ! k \<in> set (features_prefill df)" by (simp add: S_def)
  ultimately show "\<exists>v. Some v \<in> set (map c (features_prefill df))"
    by (metis image_eqI set_map)
qed

text \<open>
  C3, as amended. The table returned has a row for every row given, and the function has
  no failing path. After the backward and the forward fill, run over each whole column,
  \<open>orders_last_hour\<close> has no undefined value exactly when the table is empty or some
  restaurant has at least two observations, and \<open>orders_last_day_same_hour\<close> exactly when
  the table is empty or some restaurant has at least 25; the rolling mean is defined in
  every row.
\<close>

theorem fill_policy_defined_iff:
  "length (create_logistics_features df) = length df
   \<and> (None \<notin> set (map orders_last_hour (create_logistics_features df)) \<longleftrightarrow>
        df = [] \<or> (\<exists>R. 1 < length (filter (\<lambda>r. restaurant_id r = R) df)))
   \<and> (None \<notin> set (map orders_last_day_same_hour (create_logistics_features df)) \<longleftrightarrow>
        df = [] \<or> (\<exists>R. 24 < length (filter (\<lambda>r. restaurant_id r = R) df)))
   \<and> None \<notin> set (map orders_3h_mean (create_logistics_features df))"
proof -
  have e: "map f (features_prefill df) = [] \<longleftrightarrow> df = []" for f :: "feature_row \<Rightarrow> rat option"
    using length_features_prefill[of df] by (metis length_0_conv length_map)
  have "fillna (map orders_3h_mean (features_prefill df)) = map orders_3h_mean (features_prefill df)"
    using rolling_mean_defined by (rule fillna_all_Some)
  then have m: "None \<notin> set (map orders_3h_mean (create_logistics_features df))"
    using rolling_mean_defined[of df] by (simp add: create_logistics_features_columns(4))
  have l1: "(\<exists>v. Some v \<in> set (map orders_last_hour (features_prefill df))) \<longleftrightarrow>
     (\<exists>R. 1 < length (filter (\<lambda>r. restaurant_id r = R) df))"
    by (rule shift_column_defined_iff) (rule add_features_demand(4))
  have l24: "(\<exists>v. Some v \<in> set (map orders_last_day_same_hour (features_prefill df))) \<longleftrightarrow>
     (\<exists>R. 24 < length (filter (\<lambda>r. restaurant_id r = R) df))"
    by (rule shift_column_defined_iff) (rule add_features_demand(5))
  show ?thesis
    using m by (simp only: create_logistics_features_columns(1,2,3) fillna_defined_iff e l1 l24) simp
qed

lemma two_observations_group: "length (filter (\<lambda>r. restaurant_id r = 1) two_observations) = 2"
  by code_simp

theorem fill_policy_defined_iff_witness:
  "length (filter (\<lambda>r. restaurant_id r = 1) two_observations) = 2
   \<and> None \<notin> set (map orders_last_hour (create_logistics_features two_observations))
   \<and> None \<in> set (map orders_last_day_same_hour (create_logistics_features two_observations))"
proof -
  have a: "\<exists>R. 1 < length (filter (\<lambda>r. restaurant_id r = R) two_observations)"
    using two_observations_group by (intro exI[of _ 1]) simp
  have le2: "length (filter (\<lambda>r. restaurant_id r = R) two_observations) \<le> 2" for R
    using length_filter_le[of "\<lambda>r. restaurant_id r = R" two_observations]
    by (simp add: two_observations_def)
  have b: "\<not> (\<exists>R. 24 < length (filter (\<lambda>r. restaurant_id r = R) two_observations))"
  proof
    assume "\<exists>R. 24 < length (filter (\<lambda>r. restaurant_id r = R) two_observations)"
    then obtain R where "24 < length (filter (\<lambda>r. restaurant_id r = R) two_observations)" ..
    with le2[of R] show False by simp
  qed
  have c: "two_observations \<noteq> []" by (simp add: two_observations_def)
  from fill_policy_defined_iff[of two_observations] a b c two_observations_group
  show ?thesis by blast
qed

text \<open>
  C3, as stated, fails: for a table of one observation both lag columns are undefined
  before the fill and stay so, and the table is returned with them; nothing is raised.
\<close>

theorem undefined_feature_counterexample:
  "create_logistics_features single_observation =
     [\<lparr>order_date = 0, restaurant_id = 1, order_count = 10, h_is_weekend = 0,
       h_is_lunch_rush = 0, h_is_dinner_rush = 0, h_weather_impact = 0,
       orders_last_hour = None, orders_last_day_same_hour = None,
       orders_3h_mean = Some 10, h_is_festival = 0\<rparr>]"
  by code_simp

subsection \<open>The rolling mean\<close>

lemma filter_map_agree:
  assumes "map k xs = map k ys" "map g xs = map g ys"
  shows "map g (filter (\<lambda>x. P (k x)) xs) = map g (filter (\<lambda>x. P (k x)) ys)"
  using assms
proof (induction xs arbitrary: ys)
  case Nil
  then show ?case by simp
next
  case (Cons x xs)
  then obtain y ys' where ys: "ys = y # ys'" by (cases ys) auto
  with Cons show ?case by auto
qed

lemma restaurant_id_truncate: "restaurant_id (demand_row.truncate r) = restaurant_id r"
  by (simp add: demand_row.truncate_def)

lemma create_logistics_features_restaurants:
  "map restaurant_id (create_logistics_features df) = map restaurant_id (features_prefill df)"
proof -
  have "map restaurant_id (map demand_row.truncate (create_logistics_features df)) =
      map restaurant_id (map demand_row.truncate (features_prefill df))"
    by (simp only: create_logistics_features_columns(5))
  then show ?thesis by (simp add: restaurant_id_truncate comp_def)
qed

lemma create_logistics_features_means:
  "map orders_3h_mean (create_logistics_features df) = map orders_3h_mean (features_prefill df)"
  using fillna_all_Some[OF rolling_mean_defined[of df]]
  by (simp only: create_logistics_features_columns(4))

lemma rolling_mean3_take:
  assumes i: "i < length G" and b: "\<forall>r \<in> set G. \<bar>order_count r\<bar> < 2 ^ 51"
  shows "rolling_mean3 (take (Suc i) G) =
     Some (fdiv (of_int (sum_list (map order_count (drop (i - 2) (take (Suc i) G)))))
            (of_int (int (length (map order_count (drop (i - 2) (take (Suc i) G)))))))"
proof -
  have l: "length (take (Suc i) G) - 3 = i - 2" using i by simp
  have ne: "take (Suc i) G \<noteq> []" using i by auto
  have "\<forall>r \<in> set (take (Suc i) G). \<bar>order_count r\<bar> < 2 ^ 51"
    using b by (auto dest: in_set_takeD)
  from rolling_mean3_exact[OF this ne] show ?thesis unfolding l by (simp only: drop_map)
qed

text \<open>
  C5. Take a table whose order counts are below \<open>2 ^ 51\<close> in absolute value, so that the
  running sum of a window is exact. In the table returned, \<open>orders_3h_mean\<close> at step \<open>i\<close> of a
  restaurant's series sorted by time is the float quotient of the sum of the order counts
  at the steps \<open>i - 2\<close> to \<open>i\<close> of that restaurant by their number, the window holding
  \<open>i + 1\<close> counts at the steps 0 and 1. For the 48 alternating observations the value at
  step 2 is the float nearest to 40/3, which is 13.33 to two decimals.
\<close>

theorem rolling_mean_window:
  assumes bound: "\<forall>r \<in> set df. \<bar>order_count r\<bar> < 2 ^ 51"
  shows "(let series = sort_key order_date (filter (\<lambda>r. restaurant_id r = R) df);
        means = map orders_3h_mean
          (filter (\<lambda>r. restaurant_id r = R) (create_logistics_features df))
    in length means = length series
       \<and> (\<forall>i < length series.
            (let window = map order_count (drop (i - 2) (take (Suc i) series))
             in means ! i = Some (fdiv (of_int (sum_list window)) (of_int (int (length window))))
                \<and> length window = min (i + 1) 3)))"
proof -
  define G where "G = sort_key order_date (filter (\<lambda>r. restaurant_id r = R) df)"
  define S where "S = filter (\<lambda>r. restaurant_id r = R) (features_prefill df)"
  define M where "M = map orders_3h_mean
          (filter (\<lambda>r. restaurant_id r = R) (create_logistics_features df))"
  note n = restaurant_series_nth[where R = R and df = df, folded G_def S_def]
  have bG: "\<forall>r \<in> set G. \<bar>order_count r\<bar> < 2 ^ 51" using bound by (simp add: G_def)
  have M: "M = map orders_3h_mean S"
    unfolding M_def S_def
    using filter_map_agree[OF create_logistics_features_restaurants create_logistics_features_means,
        of "\<lambda>k. k = R" df] .
  have len: "length M = length G" by (simp add: M n(1))
  have "M ! i = Some (fdiv (of_int (sum_list (map order_count (drop (i - 2) (take (Suc i) G)))))
            (of_int (int (length (map order_count (drop (i - 2) (take (Suc i) G)))))))
       \<and> length (map order_count (drop (i - 2) (take (Suc i) G))) = min (i + 1) 3"
    if "i < length G" for i
  proof -
    have "M ! i = orders_3h_mean (S ! i)" using that by (simp add: M n(1))
    also have "\<dots> = rolling_mean3 (take (Suc i) G)"
      using that by (simp add: n(2) add_features_demand)
    finally have "M ! i = rolling_mean3 (take (Suc i) G)" .
    moreover have "length (take (Suc i) G) = Suc i" using that by simp
    then have "length (map order_count (drop (i - 2) (take (Suc i) G))) = min (i + 1) 3"
      by (simp only: length_map length_drop)
    ultimately show ?thesis using rolling_mean3_take[OF that bG] by simp
  qed
  with len show ?thesis by (simp add: Let_def flip: G_def M_def)
qed

lemma alternating_series:
  "length (sort_key order_date (filter (\<lambda>r. restaurant_id r = 7) alternating_history)) = 48"
  "map order_count (take 3 (sort_key order_date (filter (\<lambda>r. restaurant_id r = 7) alternating_history)))
     = [10, 20, 10]"
  "list_all (\<lambda>r. \<bar>order_count r\<bar> < 2 ^ 51) alternating_history"
  by code_simp+

lemma forty_thirds:
  "fdiv 40 3 = 7505999378950827 / 562949953421312"
  "round_half_even (100 * fdiv 40 3) = 1333"
  "\<bar>fdiv 40 3 - 40 / 3\<bar> < 1 / 2 ^ 50"
  by code_simp+

theorem rolling_mean_window_witness:
  "list_all (\<lambda>r. \<bar>order_count r\<bar> < 2 ^ 51) alternating_history
   \<and> length (sort_key order_date (filter (\<lambda>r. restaurant_id r = 7) alternating_history)) = 48
   \<and> map order_count (take 3 (sort_key order_date (filter (\<lambda>r. restaurant_id r = 7) alternating_history)))
       = [10, 20, 10]
   \<and> map orders_3h_mean
        (filter (\<lambda>r. restaurant_id r = 7) (create_logistics_features alternating_history)) ! 2
       = Some (fdiv 40 3)
   \<and> round_half_even (100 * fdiv 40 3) = 1333"
proof -
  define G where "G = sort_key order_date (filter (\<lambda>r. restaurant_id r = 7) alternating_history)"
  define M where "M = map orders_3h_mean
        (filter (\<lambda>r. restaurant_id r = 7) (create_logistics_features alternating_history))"
  have len: "length G = 48" and w: "map order_count (take 3 G) = [10, 20, 10]"
    unfolding G_def by (rule alternating_series(1), rule alternating_series(2))
  have bound: "\<forall>r \<in> set alternating_history. \<bar>order_count r\<bar> < 2 ^ 51"
    using alternating_series(3) by (simp only: list_all_iff)
  from rolling_mean_window[OF bound, of 7, unfolded Let_def, folded G_def M_def]
  have "\<forall>i < length G.
       M ! i = Some (fdiv (of_int (sum_list (map order_count (drop (i - 2) (take (Suc i) G)))))
                (of_int (int (length (map order_count (drop (i - 2) (take (Suc i) G)))))))"
    by blast
  from this[rule_format, of 2] len
  have "M ! 2 = Some (fdiv (of_int (sum_list (map order_count (take 3 G))))
                (of_int (int (length (map order_count (take 3 G))))))"
    by (simp add: eval_nat_numeral)
  then have "M ! 2 = Some (fdiv 40 3)" by (simp only: w) simp
  then show ?thesis using len w forty_thirds(2) alternating_series(3) by (simp add: G_def M_def)
qed

end
